theory Spec2Isabelle
  imports Complex_Main
begin

section \<open>JavaScript values and built-ins\<close>

text \<open>
  Values of TypeScript's \<open>any\<close>, as far as the flow builder and its simulator produce
  them: \<open>undefined\<close>, \<open>null\<close>, booleans, numbers, strings, arrays and object
  literals (an association list, in the order the literal is written).
\<close>

datatype json =
    JUndefined
  | JNull
  | JBool bool
  | JNum real
  | JStr string
  | JArr "json list"
  | JObj "(string \<times> json) list"

datatype js_error = TypeError

text \<open>
  Operations the JavaScript runtime supplies and the source only calls: the string a
  template literal makes of a number, \<open>Number.prototype.toString(36)\<close>,
  \<open>Date.prototype.toISOString\<close> (of a clock reading in milliseconds), and the product
  of two numbers, which is the IEEE double nearest to the product of the reals. They are
  parameters of the model.
\<close>

record js_builtins =
  num_to_string :: "real \<Rightarrow> string"
  to_base36 :: "real \<Rightarrow> string"
  to_iso :: "int \<Rightarrow> string"
  float_times :: "real \<Rightarrow> real \<Rightarrow> real"

text \<open>\<open>s.substr(start, len)\<close> for non-negative arguments.\<close>

definition substr :: "string \<Rightarrow> nat \<Rightarrow> nat \<Rightarrow> string" where
  "substr s start len = take len (drop start s)"

text \<open>\<open>xs.map((x, index) => f x index)\<close>.\<close>

definition map_index :: "('a \<Rightarrow> nat \<Rightarrow> 'b) \<Rightarrow> 'a list \<Rightarrow> 'b list" where
  "map_index f xs = map (\<lambda>(i, x). f x i) (enumerate 0 xs)"

section \<open>The flow graph (reactflow's Node and Edge)\<close>

text \<open>The \<open>condition\<close> object of a Condition node's data (ConditionNodeData).\<close>

record condition_config =
  cond_field :: string
  cond_operator :: string
  cond_value :: json

text \<open>
  A node's \<open>data\<close>: the \<open>label\<close> every node component declares as a string, the
  Condition node's \<open>condition\<close>, and the remaining keys as they are.
\<close>

record node_data =
  label :: "string option"
  condition :: "condition_config option"
  other :: "(string \<times> json) list"

record node =
  nid :: string
  ntype :: "string option"
  position :: "real \<times> real"
  ndata :: "node_data option"

record edge =
  eid :: string
  source :: string
  sourceHandle :: "string option"
  target :: string
  targetHandle :: "string option"

record flow_graph =
  nodes :: "node list"
  edges :: "edge list"

section \<open>The flow simulator (FlowSimulator)\<close>

datatype step_status = Pending | Running | Completed | Failed | Skipped

text \<open>
  ExecutionStep. An optional field that is absent is \<open>None\<close>; \<open>input\<close> and
  \<open>output\<close> are of type \<open>any\<close>, where absent is \<open>JUndefined\<close>.
\<close>

record execution_step =
  step_id :: string
  nodeId :: string
  nodeName :: string
  status :: step_status
  startTime :: "int option"
  endTime :: "int option"
  duration :: "int option"
  step_input :: json
  step_output :: json
  step_error :: "string option"
  logs :: "string list"

record item =
  item_name :: string
  quantity :: real
  price :: real

record simulation_data =
  orderId :: string
  customerId :: string
  merchantId :: string
  amount :: real
  items :: "item list"
  customerPhone :: string
  merchantPhone :: string
  timestamp :: string

text \<open>
  What one step reads from the runtime while it executes: \<open>Date.now()\<close> when the step
  is marked running; in the completion callback the two \<open>Math.random()\<close> draws for
  success and duration and \<open>Date.now()\<close> for the end time; inside
  \<open>simulateNodeExecution\<close> at most one \<open>Math.random()\<close> draw and one \<open>new Date()\<close>.
  (One more draw, made when the completion is scheduled, only sets the delay of its
  timer.)
\<close>

record step_env =
  now_start :: int
  random_success :: real
  random_duration :: real
  now_end :: int
  node_random :: real
  node_clock :: int

text \<open>The object \<open>simulateNodeExecution\<close> returns.\<close>

record exec_result =
  result_output :: json
  result_error :: "string option"
  result_logs :: "string list"

text \<open>The text a template literal makes of \<open>node.type\<close>.\<close>

definition type_text :: "string option \<Rightarrow> string" where
  "type_text t = (case t of None \<Rightarrow> ''undefined'' | Some s \<Rightarrow> s)"

text \<open>
  The characters between \<open>Processing payment of\<close> and the amount in the payment log
  line, as the bytes of the source file.
\<close>

definition currency_mark :: string where
  "currency_mark = [CHR 0xC3, CHR 0xA2, CHR 0xE2, CHR 0x80, CHR 0x9A, CHR 0xC2, CHR 0xB9]"

definition simulateNodeExecution ::
  "js_builtins \<Rightarrow> step_env \<Rightarrow> node option \<Rightarrow> simulation_data \<Rightarrow> exec_result" where
  "simulateNodeExecution B env node_opt data =
    (case node_opt of
      None \<Rightarrow>
        \<lparr>result_output = JNull, result_error = Some ''Node not found'',
         result_logs = [''Error: Node not found'']\<rparr>
    | Some node \<Rightarrow>
        if ntype node = Some ''start'' then
          \<lparr>result_output = JObj [(''flowId'', JStr ''flow-123''),
                                 (''startTime'', JStr (to_iso B (node_clock env)))],
           result_error = None,
           result_logs = [''Flow execution started'', ''Processing order '' @ orderId data]\<rparr>
        else if ntype node = Some ''notification'' then
          \<lparr>result_output = JObj [(''messageId'',
                                   JStr (''msg-'' @ substr (to_base36 B (node_random env)) 2 9)),
                                 (''sent'', JBool True)],
           result_error = None,
           result_logs = [''Sending notification to '' @ customerPhone data,
                          ''SMS gateway connection established'',
                          ''Message queued for delivery'']\<rparr>
        else if ntype node = Some ''payment'' then
          \<lparr>result_output = JObj [(''transactionId'',
                                   JStr (''txn-'' @ substr (to_base36 B (node_random env)) 2 9)),
                                 (''amount'', JNum (amount data)),
                                 (''status'', JStr ''completed'')],
           result_error = None,
           result_logs = [''Processing payment of '' @ currency_mark
                            @ num_to_string B (amount data),
                          ''UPI collect request initiated'',
                          ''Payment successful'']\<rparr>
        else if ntype node = Some ''condition'' then
          (let condition = (node_random env > 0.5) in
            \<lparr>result_output = JObj [(''condition'', JBool condition),
                                   (''branch'', JStr (if condition then ''true'' else ''false''))],
             result_error = None,
             result_logs = [''Evaluating condition: amount > 200'',
                            ''Condition result: '' @ (if condition then ''true'' else ''false'')]\<rparr>)
        else if ntype node = Some ''action'' then
          \<lparr>result_output = JObj [(''response'',
                                   JObj [(''status'', JStr ''success''),
                                         (''data'', JObj [(''processed'', JBool True)])]),
                                 (''statusCode'', JNum 200)],
           result_error = None,
           result_logs = [''Executing HTTP request'', ''Request sent to external API'',
                          ''Response received successfully'']\<rparr>
        else if ntype node = Some ''end'' then
          \<lparr>result_output = JObj [(''completed'', JBool True),
                                 (''endTime'', JStr (to_iso B (node_clock env)))],
           result_error = None,
           result_logs = [''Flow execution completed'', ''Cleanup tasks performed'']\<rparr>
        else
          \<lparr>result_output = JObj [(''nodeType'',
                                   (case ntype node of None \<Rightarrow> JUndefined | Some t \<Rightarrow> JStr t)),
                                 (''processed'', JBool True)],
           result_error = None,
           result_logs = [''Executing '' @ type_text (ntype node) @ '' node'',
                          ''Processing completed'']\<rparr>)"

text \<open>The closure of the completion callback that \<open>executeNextStep\<close> schedules.\<close>

record completion =
  cl_index :: int
  cl_node :: "node option"
  cl_data :: simulation_data

text \<open>
  The component: its props (\<open>nodes\<close>, \<open>edges\<close>, and \<open>isRunning\<close>, which the parent
  clears in \<open>onStop\<close>) and its state.
\<close>

record simulator = flow_graph +
  isRunning :: bool
  executionSteps :: "execution_step list"
  currentStepIndex :: int
  simulationData :: simulation_data
  isPlaying :: bool

text \<open>\<open>node.data?.label || node.type || 'Unknown'\<close>: an empty string is falsy.\<close>

definition nodeNameOf :: "node \<Rightarrow> string" where
  "nodeNameOf node =
    (case (case ndata node of None \<Rightarrow> None | Some d \<Rightarrow> label d) of
      Some (c # cs) \<Rightarrow> c # cs
    | _ \<Rightarrow> (case ntype node of Some (c # cs) \<Rightarrow> c # cs | _ \<Rightarrow> ''Unknown''))"

text \<open>The effect that initialises the execution steps from the flow's nodes.\<close>

definition initSteps :: "js_builtins \<Rightarrow> node list \<Rightarrow> execution_step list" where
  "initSteps B ns =
    map_index (\<lambda>node index.
      \<lparr>step_id = ''step-'' @ num_to_string B (real index),
       nodeId = nid node,
       nodeName = nodeNameOf node,
       status = Pending,
       startTime = None, endTime = None, duration = None,
       step_input = JUndefined, step_output = JUndefined, step_error = None,
       logs = []\<rparr>) ns"

definition mount ::
  "js_builtins \<Rightarrow> node list \<Rightarrow> edge list \<Rightarrow> bool \<Rightarrow> simulation_data \<Rightarrow> simulator" where
  "mount B ns es running data =
    \<lparr>nodes = ns, edges = es, isRunning = running,
     executionSteps = initSteps B ns, currentStepIndex = 0,
     simulationData = data, isPlaying = False\<rparr>"

text \<open>
  \<open>executeNextStep\<close> is a callback of a render (\<open>useCallback\<close> over
  \<open>currentStepIndex\<close>, \<open>executionSteps\<close>, \<open>nodes\<close>, \<open>simulationData\<close>): it reads these
  four as the render \<open>r\<close> in which it was created has them, and its setters update
  the state \<open>s\<close> at the time of the call. This is the part that runs at once: past the
  last step it stops playing; otherwise it marks the step at the render's index running
  and schedules the completion (returned here). Reading
  \<open>executionSteps[currentStepIndex]\<close> at a negative index gives \<open>undefined\<close>, and
  \<open>currentStep.nodeId\<close> throws.
\<close>

definition executeNextStep ::
  "int \<Rightarrow> simulator \<Rightarrow> simulator \<Rightarrow> js_error + (simulator \<times> completion option)" where
  "executeNextStep now r s =
    (if currentStepIndex r \<ge> int (length (executionSteps r)) then
       Inr (s\<lparr>isPlaying := False\<rparr>, None)
     else if currentStepIndex r < 0 then Inl TypeError
     else
       (let currentStep = executionSteps r ! nat (currentStepIndex r);
            node = find (\<lambda>n. nid n = nodeId currentStep) (nodes r)
        in Inr (s\<lparr>executionSteps :=
                    map_index (\<lambda>step index.
                      if int index = currentStepIndex r then
                        step\<lparr>status := Running, startTime := Some now,
                             logs := logs step @ [''Executing '' @ nodeName step @ ''...'']\<rparr>
                      else step) (executionSteps s)\<rparr>,
                Some \<lparr>cl_index = currentStepIndex r, cl_node = node,
                      cl_data = simulationData r\<rparr>)))"

text \<open>
  The completion callback: succeeds when the draw exceeds 0.1, seals the step whose
  index the closure captured, and advances the current step index.
\<close>

definition completeStep ::
  "js_builtins \<Rightarrow> step_env \<Rightarrow> completion \<Rightarrow> simulator \<Rightarrow> simulator" where
  "completeStep B env c s =
    (let success = (random_success env > 0.1);
         dur = \<lfloor>float_times B (random_duration env) 2000\<rfloor> + 500
     in s\<lparr>executionSteps :=
            map_index (\<lambda>step index.
              if int index = cl_index c then
                (let result = simulateNodeExecution B env (cl_node c) (cl_data c)
                 in step\<lparr>status := (if success then Completed else Failed),
                         endTime := Some (now_end env),
                         duration := Some dur,
                         step_output := (if success then result_output result else JUndefined),
                         step_error := (if success then None else result_error result),
                         logs := logs step @ result_logs result
                           @ [if success then ''Completed successfully''
                              else ''Execution failed'']\<rparr>)
              else step) (executionSteps s),
          currentStepIndex := currentStepIndex s + 1\<rparr>)"

text \<open>The record that \<open>startSimulation\<close> and \<open>stopSimulation\<close> map over the steps.\<close>

definition resetStep :: "execution_step \<Rightarrow> execution_step" where
  "resetStep step =
    step\<lparr>status := Pending, startTime := None, endTime := None, duration := None,
         step_output := JUndefined, step_error := None, logs := []\<rparr>"

definition startSimulation :: "simulator \<Rightarrow> simulator" where
  "startSimulation s =
    (if currentStepIndex s \<ge> int (length (executionSteps s)) then
       s\<lparr>isPlaying := True, currentStepIndex := 0,
         executionSteps := map resetStep (executionSteps s)\<rparr>
     else s\<lparr>isPlaying := True\<rparr>)"

definition pauseSimulation :: "simulator \<Rightarrow> simulator" where
  "pauseSimulation s = s\<lparr>isPlaying := False\<rparr>"

definition stopSimulation :: "simulator \<Rightarrow> simulator" where
  "stopSimulation s =
    s\<lparr>isPlaying := False, currentStepIndex := 0,
      executionSteps := map resetStep (executionSteps s),
      isRunning := False\<rparr>"

definition jumpToStep :: "int \<Rightarrow> simulator \<Rightarrow> simulator" where
  "jumpToStep stepIndex s = s\<lparr>currentStepIndex := stepIndex, isPlaying := False\<rparr>"

text \<open>
  The operations of the controller on the component's state, one per call: the three
  buttons, \<open>jumpToStep\<close>, a call of \<open>executeNextStep\<close> (of any render), and a completion
  callback (with any closure).
\<close>

datatype sim_op =
    Play
  | Pause
  | Stop
  | JumpToStep int
  | ExecuteNextStep int simulator
  | Completion step_env completion

fun apply_op :: "js_builtins \<Rightarrow> sim_op \<Rightarrow> simulator \<Rightarrow> simulator" where
  "apply_op B Play s = startSimulation s"
| "apply_op B Pause s = pauseSimulation s"
| "apply_op B Stop s = stopSimulation s"
| "apply_op B (JumpToStep k) s = jumpToStep k s"
| "apply_op B (ExecuteNextStep now r) s =
    (case executeNextStep now r s of Inl e \<Rightarrow> s | Inr (s', c) \<Rightarrow> s')"
| "apply_op B (Completion env c) s = completeStep B env c s"

fun apply_ops :: "js_builtins \<Rightarrow> sim_op list \<Rightarrow> simulator \<Rightarrow> simulator" where
  "apply_ops B [] s = s"
| "apply_ops B (op # ops) s = apply_ops B ops (apply_op B op s)"

subsection \<open>The component with its timers\<close>

text \<open>
  The component as it runs: its state (\<open>sim\<close>), the playback speed, the timer of the
  auto-play effect when one is set (with the render whose \<open>executeNextStep\<close> it will
  call), and the completions that \<open>executeNextStep\<close> has scheduled and that have not
  fired yet. The nodes and edges props stay as they are while the component is mounted.
\<close>

record runtime =
  sim :: simulator
  playbackSpeed :: real
  timer :: "simulator option"
  pending :: "completion list"

text \<open>The dependencies of the auto-play effect.\<close>

definition autoPlayDeps :: "runtime \<Rightarrow> bool \<times> int \<times> real \<times> nat" where
  "autoPlayDeps w =
    (isPlaying (sim w), currentStepIndex (sim w), playbackSpeed w,
     length (executionSteps (sim w)))"

text \<open>
  The auto-play effect after the render that follows an event (\<open>w\<close> before the event,
  \<open>w'\<close> after it). When no dependency has changed it does not run, and a timer that is
  set stays set, calling the \<open>executeNextStep\<close> of the earlier render. When one has
  changed, the cleanup clears the timer, and the effect sets a new one, which will call
  the \<open>executeNextStep\<close> of this render, unless the simulator is not playing or the
  index is past the last step.
\<close>

definition autoPlayEffect :: "runtime \<Rightarrow> runtime \<Rightarrow> runtime" where
  "autoPlayEffect w w' =
    (if autoPlayDeps w' = autoPlayDeps w then w'
     else w'\<lparr>timer :=
              (if \<not> isPlaying (sim w')
                  \<or> currentStepIndex (sim w') \<ge> int (length (executionSteps (sim w')))
               then None else Some (sim w'))\<rparr>)"

text \<open>
  The events: the three buttons, \<open>jumpToStep\<close>, a speed button, an edit of the test
  data, the auto-play timer firing (at the clock reading given), and the \<open>k\<close>-th
  scheduled completion firing (with the draws and clock readings given). A timer that
  is not set and a completion that is not scheduled cannot fire. The delays of the
  timers are not modelled: every order of firing is an order of events.
\<close>

datatype event =
    StartSimulation
  | PauseSimulation
  | StopSimulation
  | JumpTo int
  | SetPlaybackSpeed real
  | SetSimulationData simulation_data
  | TimerFires int
  | CompletionFires nat step_env

fun fire :: "js_builtins \<Rightarrow> event \<Rightarrow> runtime \<Rightarrow> runtime" where
  "fire B StartSimulation w = autoPlayEffect w (w\<lparr>sim := startSimulation (sim w)\<rparr>)"
| "fire B PauseSimulation w = autoPlayEffect w (w\<lparr>sim := pauseSimulation (sim w)\<rparr>)"
| "fire B StopSimulation w = autoPlayEffect w (w\<lparr>sim := stopSimulation (sim w)\<rparr>)"
| "fire B (JumpTo k) w = autoPlayEffect w (w\<lparr>sim := jumpToStep k (sim w)\<rparr>)"
| "fire B (SetPlaybackSpeed v) w = autoPlayEffect w (w\<lparr>playbackSpeed := v\<rparr>)"
| "fire B (SetSimulationData d) w =
    autoPlayEffect w (w\<lparr>sim := (sim w)\<lparr>simulationData := d\<rparr>\<rparr>)"
| "fire B (TimerFires now) w =
    (case timer w of
      None \<Rightarrow> w
    | Some r \<Rightarrow>
        (case executeNextStep now r (sim w) of
          Inl e \<Rightarrow> w\<lparr>timer := None\<rparr>
        | Inr (s', c) \<Rightarrow>
            autoPlayEffect w
              (w\<lparr>sim := s', timer := None,
                 pending := pending w @ (case c of None \<Rightarrow> [] | Some c' \<Rightarrow> [c'])\<rparr>)))"
| "fire B (CompletionFires k env) w =
    (if k < length (pending w) then
       autoPlayEffect w
         (w\<lparr>sim := completeStep B env (pending w ! k) (sim w),
            pending := take k (pending w) @ drop (Suc k) (pending w)\<rparr>)
     else w)"

fun run_events :: "js_builtins \<Rightarrow> event list \<Rightarrow> runtime \<Rightarrow> runtime" where
  "run_events B [] w = w"
| "run_events B (e # es) w = run_events B es (fire B e w)"

text \<open>The component after it is mounted: speed 1, no timer, nothing scheduled.\<close>

definition mountRuntime ::
  "js_builtins \<Rightarrow> node list \<Rightarrow> edge list \<Rightarrow> bool \<Rightarrow> simulation_data \<Rightarrow> runtime" where
  "mountRuntime B ns es running data =
    \<lparr>sim = mount B ns es running data, playbackSpeed = 1, timer = None, pending = []\<rparr>"

section \<open>The flow editor (FlowBuilder)\<close>

datatype flow_status = Draft | Active | Inactive

record flow_metadata =
  createdAt :: string
  updatedAt :: string
  createdBy :: string
  tags :: "string list"

text \<open>FlowData: the graph with the flow's identity, properties and metadata.\<close>

record flow_data = flow_graph +
  fd_id :: string
  fd_name :: string
  fd_description :: string
  fd_vertical :: string
  fd_version :: string
  fd_status :: flow_status
  metadata :: flow_metadata

record flow_properties =
  fp_name :: string
  fp_description :: string
  fp_vertical :: string
  fp_version :: string
  fp_status :: flow_status
  fp_tags :: "string list"

text \<open>
  The component: its \<open>flow\<close> prop and its state. \<open>nodes\<close> and \<open>edges\<close> are the
  editor graph; \<open>history\<close> is the list of snapshots with the index of the current one.
\<close>

record editor = flow_graph +
  flow :: "flow_data option"
  selectedNode :: "node option"
  activeTab :: string
  isDirty :: bool
  isSimulating :: bool
  flowProperties :: flow_properties
  history :: "flow_graph list"
  historyIndex :: nat

text \<open>\<open>a || b\<close> on strings: the empty string is falsy.\<close>

definition or_else :: "string \<Rightarrow> string \<Rightarrow> string" where
  "or_else a b = (if a = [] then b else a)"

definition initialNodes :: "node list" where
  "initialNodes =
    [\<lparr>nid = ''start-1'', ntype = Some ''start'', position = (100, 100),
      ndata = Some \<lparr>label = Some ''Start'', condition = None, other = []\<rparr>\<rparr>]"

text \<open>The initial state of the component, for a given \<open>flow\<close> prop.\<close>

definition initEditor :: "flow_data option \<Rightarrow> editor" where
  "initEditor fl =
    (let ns = (case fl of None \<Rightarrow> initialNodes | Some f \<Rightarrow> nodes f);
         es = (case fl of None \<Rightarrow> [] | Some f \<Rightarrow> edges f)
     in \<lparr>nodes = ns, edges = es,
         flow = fl, selectedNode = None, activeTab = ''design'',
         isDirty = False, isSimulating = False,
         flowProperties =
           (case fl of
             None \<Rightarrow>
               \<lparr>fp_name = ''New Flow'', fp_description = [], fp_vertical = ''kirana'',
                fp_version = ''1.0.0'', fp_status = Draft, fp_tags = []\<rparr>
           | Some f \<Rightarrow>
               \<lparr>fp_name = or_else (fd_name f) ''New Flow'',
                fp_description = or_else (fd_description f) [],
                fp_vertical = or_else (fd_vertical f) ''kirana'',
                fp_version = or_else (fd_version f) ''1.0.0'',
                fp_status = fd_status f,
                fp_tags = tags (metadata f)\<rparr>),
         history = [\<lparr>nodes = ns, edges = es\<rparr>],
         historyIndex = 0\<rparr>)"

text \<open>
  \<open>saveToHistory\<close> is a callback of the render in which it was created
  (\<open>useCallback\<close> over \<open>nodes\<close>, \<open>edges\<close>, \<open>history\<close>, \<open>historyIndex\<close>): it reads
  these four as that render has them (\<open>c\<close>). A state setter called just before it
  (\<open>setNodes\<close>, \<open>setEdges\<close>) queues an update for the next render and does not change
  them. Its own setters write the history of the state being updated (\<open>s\<close>).
\<close>

definition saveToHistory :: "editor \<Rightarrow> editor \<Rightarrow> editor" where
  "saveToHistory c s =
    (let newHistory = take (historyIndex c + 1) (history c)
                        @ [\<lparr>nodes = nodes c, edges = edges c\<rparr>]
     in s\<lparr>history := newHistory, historyIndex := length newHistory - 1, isDirty := True\<rparr>)"

text \<open>
  \<open>undo\<close>: \<open>history[historyIndex - 1]\<close> beyond the end of the list is \<open>undefined\<close>, and
  reading \<open>prevState.nodes\<close> throws.
\<close>

definition undo :: "editor \<Rightarrow> js_error + editor" where
  "undo s =
    (if historyIndex s > 0 then
       (if historyIndex s - 1 < length (history s) then
          (let prevState = history s ! (historyIndex s - 1)
           in Inr (s\<lparr>nodes := nodes prevState, edges := edges prevState,
                     historyIndex := historyIndex s - 1\<rparr>))
        else Inl TypeError)
     else Inr s)"

definition redo :: "editor \<Rightarrow> editor" where
  "redo s =
    (if historyIndex s < length (history s) - 1 then
       (let nextState = history s ! (historyIndex s + 1)
        in s\<lparr>nodes := nodes nextState, edges := edges nextState,
             historyIndex := historyIndex s + 1\<rparr>)
     else s)"

definition getDefaultNodeData :: "string \<Rightarrow> node_data" where
  "getDefaultNodeData nodeType =
    (if nodeType = ''start'' then
       \<lparr>label = Some ''Start'', condition = None,
        other = [(''description'', JStr ''Flow starting point'')]\<rparr>
     else if nodeType = ''end'' then
       \<lparr>label = Some ''End'', condition = None,
        other = [(''description'', JStr ''Flow ending point'')]\<rparr>
     else if nodeType = ''action'' then
       \<lparr>label = Some ''Action'', condition = None,
        other = [(''actionType'', JStr ''http_request''),
                 (''config'', JObj [(''method'', JStr ''GET''), (''url'', JStr []),
                                    (''headers'', JObj []), (''body'', JStr [])])]\<rparr>
     else if nodeType = ''condition'' then
       \<lparr>label = Some ''Condition'',
        condition = Some \<lparr>cond_field = [], cond_operator = ''equals'',
                          cond_value = JStr []\<rparr>,
        other = []\<rparr>
     else if nodeType = ''data'' then
       \<lparr>label = Some ''Data'', condition = None,
        other = [(''dataType'', JStr ''variable''),
                 (''config'', JObj [(''variableName'', JStr []),
                                    (''defaultValue'', JStr [])])]\<rparr>
     else if nodeType = ''trigger'' then
       \<lparr>label = Some ''Trigger'', condition = None,
        other = [(''triggerType'', JStr ''webhook''),
                 (''config'', JObj [(''url'', JStr []), (''method'', JStr ''POST'')])]\<rparr>
     else if nodeType = ''notification'' then
       \<lparr>label = Some ''Notification'', condition = None,
        other = [(''notificationType'', JStr ''sms''),
                 (''config'', JObj [(''template'', JStr []), (''recipients'', JArr [])])]\<rparr>
     else if nodeType = ''payment'' then
       \<lparr>label = Some ''Payment'', condition = None,
        other = [(''paymentType'', JStr ''upi_collect''),
                 (''config'', JObj [(''amount'', JNum 0), (''description'', JStr [])])]\<rparr>
     else \<lparr>label = Some ''Unknown'', condition = None, other = []\<rparr>)"

text \<open>
  \<open>addNode\<close>: \<open>now\<close> is \<open>Date.now()\<close>, \<open>rx\<close> and \<open>ry\<close> are the two \<open>Math.random()\<close>
  draws that place a node given no position.
\<close>

definition addNode ::
  "js_builtins \<Rightarrow> int \<Rightarrow> real \<Rightarrow> real \<Rightarrow> string \<Rightarrow> (real \<times> real) option \<Rightarrow> editor \<Rightarrow> editor" where
  "addNode B now rx ry nodeType pos s =
    (let newNode =
           \<lparr>nid = nodeType @ ''-'' @ num_to_string B (real_of_int now),
            ntype = Some nodeType,
            position = (case pos of Some p \<Rightarrow> p | None \<Rightarrow> (float_times B rx 400, float_times B ry 400)),
            ndata = Some (getDefaultNodeData nodeType)\<rparr>
     in saveToHistory s (s\<lparr>nodes := nodes s @ [newNode]\<rparr>))"

definition deleteNode :: "string \<Rightarrow> editor \<Rightarrow> editor" where
  "deleteNode nodeId' s =
    saveToHistory s
      (s\<lparr>nodes := filter (\<lambda>node. nid node \<noteq> nodeId') (nodes s),
         edges := filter (\<lambda>edge. source edge \<noteq> nodeId' \<and> target edge \<noteq> nodeId') (edges s),
         selectedNode := None\<rparr>)"

text \<open>
  \<open>handlePublish\<close>: builds the FlowData handed to \<open>onPublish\<close> (returned first) and
  updates the state. \<open>t_id\<close>, \<open>t_created\<close> and \<open>t_updated\<close> are the clock readings of
  \<open>Date.now()\<close> and of the two \<open>new Date()\<close>.
\<close>

definition handlePublish ::
  "js_builtins \<Rightarrow> int \<Rightarrow> int \<Rightarrow> int \<Rightarrow> editor \<Rightarrow> flow_data \<times> editor" where
  "handlePublish B t_id t_created t_updated s =
    (let flowData =
           \<lparr>nodes = nodes s, edges = edges s,
            fd_id = or_else (case flow s of None \<Rightarrow> [] | Some f \<Rightarrow> fd_id f)
                      (''flow-'' @ num_to_string B (real_of_int t_id)),
            fd_name = fp_name (flowProperties s),
            fd_description = fp_description (flowProperties s),
            fd_vertical = fp_vertical (flowProperties s),
            fd_version = fp_version (flowProperties s),
            fd_status = Active,
            metadata =
              \<lparr>createdAt = or_else (case flow s of None \<Rightarrow> []
                                     | Some f \<Rightarrow> createdAt (metadata f))
                             (to_iso B t_created),
               updatedAt = to_iso B t_updated,
               createdBy = ''current-user'',
               tags = fp_tags (flowProperties s)\<rparr>\<rparr>
     in (flowData,
         s\<lparr>flowProperties := (flowProperties s)\<lparr>fp_status := Active\<rparr>, isDirty := False\<rparr>))"

section \<open>Notions used to state the properties\<close>

text \<open>A step is sealed when its execution has finished, either way.\<close>

definition sealed :: "execution_step \<Rightarrow> bool" where
  "sealed step = (status step = Completed \<or> status step = Failed)"

text \<open>
  The two records written in place of a step, by name: the one with which
  \<open>executeNextStep\<close> marks it running, and the one with which the completion callback
  seals it.
\<close>

definition markRunning :: "int \<Rightarrow> execution_step \<Rightarrow> execution_step" where
  "markRunning now step =
    step\<lparr>status := Running, startTime := Some now,
         logs := logs step @ [''Executing '' @ nodeName step @ ''...'']\<rparr>"

definition sealStep ::
  "js_builtins \<Rightarrow> step_env \<Rightarrow> completion \<Rightarrow> execution_step \<Rightarrow> execution_step" where
  "sealStep B env c step =
    (let success = (random_success env > 0.1);
         result = simulateNodeExecution B env (cl_node c) (cl_data c)
     in step\<lparr>status := (if success then Completed else Failed),
             endTime := Some (now_end env),
             duration := Some (\<lfloor>float_times B (random_duration env) 2000\<rfloor> + 500),
             step_output := (if success then result_output result else JUndefined),
             step_error := (if success then None else result_error result),
             logs := logs step @ result_logs result
               @ [if success then ''Completed successfully'' else ''Execution failed'']\<rparr>)"

text \<open>The closure that \<open>executeNextStep\<close> of the render \<open>r\<close> hands to its completion.\<close>

definition closure_of :: "simulator \<Rightarrow> completion" where
  "closure_of r =
    \<lparr>cl_index = currentStepIndex r,
     cl_node = find (\<lambda>n. nid n = nodeId (executionSteps r ! nat (currentStepIndex r))) (nodes r),
     cl_data = simulationData r\<rparr>"

text \<open>
  The record of the current step of \<open>s\<close> after \<open>executeNextStep\<close> of this very state
  and then its completion.
\<close>

definition executed :: "js_builtins \<Rightarrow> step_env \<Rightarrow> simulator \<Rightarrow> execution_step" where
  "executed B env s =
    sealStep B env (closure_of s)
      (markRunning (now_start env) (executionSteps s ! nat (currentStepIndex s)))"

text \<open>
  The record of step \<open>j\<close> of a freshly mounted component after it has been executed
  once: marked running, then sealed by the completion, whose closure holds the first
  node of the array that has the id of node \<open>j\<close>.
\<close>

definition executedRecord ::
  "js_builtins \<Rightarrow> node list \<Rightarrow> simulation_data \<Rightarrow> step_env \<Rightarrow> nat \<Rightarrow> execution_step" where
  "executedRecord B ns data env j =
    sealStep B env
      \<lparr>cl_index = int j, cl_node = find (\<lambda>n. nid n = nid (ns ! j)) ns, cl_data = data\<rparr>
      (markRunning (now_start env) (initSteps B ns ! j))"

text \<open>
  The events of auto-play left alone: each firing of the auto-play timer is followed by
  the completion it scheduled, the only one then scheduled. One \<open>step_env\<close> is read per
  step; the clock reading of the timer is its \<open>now_start\<close>.
\<close>

definition stepEvents :: "step_env list \<Rightarrow> event list" where
  "stepEvents envs =
    concat (map (\<lambda>env. [TimerFires (now_start env), CompletionFires 0 env]) envs)"

text \<open>
  Auto-play without interruption: Play is pressed, then the timer and the completions
  fire in turn, and there is no other event.
\<close>

definition uninterrupted :: "step_env list \<Rightarrow> event list" where
  "uninterrupted envs = StartSimulation # stepEvents envs"

text \<open>A timer is set only while the simulator is playing.\<close>

definition timer_ok :: "runtime \<Rightarrow> bool" where
  "timer_ok w = (\<not> isPlaying (sim w) \<longrightarrow> timer w = None)"

definition never_skipped :: "simulator \<Rightarrow> bool" where
  "never_skipped s = list_all (\<lambda>step. status step \<noteq> Skipped) (executionSteps s)"

text \<open>
  Two executions of a step read the same \<open>Math.random()\<close> draws; their clock readings
  may differ.
\<close>

definition same_draws :: "step_env \<Rightarrow> step_env \<Rightarrow> bool" where
  "same_draws e e' =
    (random_success e = random_success e' \<and> random_duration e = random_duration e' \<and>
     node_random e = node_random e')"

text \<open>
  An output without the time stamp that the output of a start node (\<open>startTime\<close>) and of
  an end node (\<open>endTime\<close>) carries.
\<close>

definition scrub :: "json \<Rightarrow> json" where
  "scrub v =
    (case v of
      JObj kvs \<Rightarrow>
        JObj (map (\<lambda>(k, x). if k = ''startTime'' \<or> k = ''endTime'' then (k, JUndefined)
                            else (k, x)) kvs)
    | _ \<Rightarrow> v)"

text \<open>
  What a step record holds besides clock readings: every field but \<open>startTime\<close> and
  \<open>endTime\<close>, with the output scrubbed.
\<close>

definition clock_free ::
  "execution_step \<Rightarrow>
     string \<times> string \<times> string \<times> step_status \<times> int option \<times> json \<times> json
       \<times> string option \<times> string list" where
  "clock_free step =
    (step_id step, nodeId step, nodeName step, status step, duration step,
     step_input step, scrub (step_output step), step_error step, logs step)"

text \<open>Two states of the component that differ in clock readings at most.\<close>

definition alike :: "simulator \<Rightarrow> simulator \<Rightarrow> bool" where
  "alike s s' =
    (nodes s = nodes s' \<and> simulationData s = simulationData s' \<and>
     isPlaying s = isPlaying s' \<and> currentStepIndex s = currentStepIndex s' \<and>
     map clock_free (executionSteps s) = map clock_free (executionSteps s'))"

definition alike_runtime :: "runtime \<Rightarrow> runtime \<Rightarrow> bool" where
  "alike_runtime w w' =
    (alike (sim w) (sim w') \<and> playbackSpeed w = playbackSpeed w' \<and>
     rel_option alike (timer w) (timer w') \<and> pending w = pending w')"

text \<open>
  The same event with the same \<open>Math.random()\<close> draws; the clock readings may differ.
\<close>

fun same_event :: "event \<Rightarrow> event \<Rightarrow> bool" where
  "same_event (TimerFires now) (TimerFires now') = True"
| "same_event (CompletionFires k env) (CompletionFires k' env') = (k = k' \<and> same_draws env env')"
| "same_event e e' = (e = e')"

text \<open>Every edge endpoint is the id of a node of the graph.\<close>

definition endpoints_exist :: "node list \<Rightarrow> edge list \<Rightarrow> bool" where
  "endpoints_exist ns es =
    list_all (\<lambda>e. source e \<in> set (map nid ns) \<and> target e \<in> set (map nid ns)) es"

text \<open>
  The specification's first structural check of a flow, in its words: exactly one Start
  node and at least one End node. (The source has no validator.)
\<close>

definition spec_structurally_valid :: "node list \<Rightarrow> bool" where
  "spec_structurally_valid ns =
    (length (filter (\<lambda>n. ntype n = Some ''start'') ns) = 1 \<and>
     list_ex (\<lambda>n. ntype n = Some ''end'') ns)"

section \<open>Sample inputs\<close>

text \<open>
  Built-ins that agree with the runtime on the arguments the examples pass: the numbers
  0, 1, 2 and 150, the draw 0.5 (\<open>(0.5).toString(36)\<close> is \<open>0.i\<close>), the clock readings
  0 and 1000, and the products \<open>0.5 * 2000\<close> and \<open>0 * 400\<close>, which are exact.
\<close>

definition sample_builtins :: js_builtins where
  "sample_builtins =
    \<lparr>num_to_string =
       (\<lambda>r. if r = 0 then ''0'' else if r = 1 then ''1'' else if r = 2 then ''2'' else ''150''),
     to_base36 = (\<lambda>r. ''0.i''),
     to_iso = (\<lambda>t. if t = 0 then ''1970-01-01T00:00:00.000Z''
                    else ''1970-01-01T00:00:01.000Z''),
     float_times = (\<lambda>x y. x * y)\<rparr>"

definition sample_data :: simulation_data where
  "sample_data =
    \<lparr>orderId = ''ORD-1'', customerId = ''CUST-1'', merchantId = ''MERCH-1'',
     amount = 150, items = [], customerPhone = ''+91 98765 43210'',
     merchantPhone = ''+91 87654 32109'', timestamp = ''1970-01-01T00:00:00.000Z''\<rparr>"

text \<open>A step that succeeds; its third draw is 0.5.\<close>

definition env_ok :: step_env where
  "env_ok =
    \<lparr>now_start = 0, random_success = 0.5, random_duration = 0.5, now_end = 1000,
     node_random = 0.5, node_clock = 0\<rparr>"

text \<open>The same step with the third draw 0.9, and with the third draw 0.1.\<close>

definition env_high :: step_env where
  "env_high =
    \<lparr>now_start = 0, random_success = 0.5, random_duration = 0.5, now_end = 1000,
     node_random = 0.9, node_clock = 0\<rparr>"

definition env_low :: step_env where
  "env_low =
    \<lparr>now_start = 0, random_success = 0.5, random_duration = 0.5, now_end = 1000,
     node_random = 0.1, node_clock = 0\<rparr>"

text \<open>A step that fails: the success draw is 0.05.\<close>

definition env_fail :: step_env where
  "env_fail =
    \<lparr>now_start = 0, random_success = 0.05, random_duration = 0.5, now_end = 1000,
     node_random = 0.5, node_clock = 0\<rparr>"

text \<open>The draws of \<open>env_ok\<close>, read one second later.\<close>

definition env_later :: step_env where
  "env_later =
    \<lparr>now_start = 1000, random_success = 0.5, random_duration = 0.5, now_end = 2000,
     node_random = 0.5, node_clock = 1000\<rparr>"

text \<open>Action, then End; the Action node has no failure edge.\<close>

definition action_nodes :: "node list" where
  "action_nodes =
    [\<lparr>nid = ''action-1'', ntype = Some ''action'', position = (0, 0),
      ndata = Some (getDefaultNodeData ''action'')\<rparr>,
     \<lparr>nid = ''end-1'', ntype = Some ''end'', position = (200, 0),
      ndata = Some (getDefaultNodeData ''end'')\<rparr>]"

definition action_edges :: "edge list" where
  "action_edges =
    [\<lparr>eid = ''edge-1'', source = ''action-1'', sourceHandle = None,
      target = ''end-1'', targetHandle = None\<rparr>]"

text \<open>
  A Condition \<open>amount > 200\<close> whose \<open>true\<close> port leads to a Notification and whose
  \<open>false\<close> port leads to an End.
\<close>

definition condition_nodes :: "node list" where
  "condition_nodes =
    [\<lparr>nid = ''condition-1'', ntype = Some ''condition'', position = (0, 0),
      ndata = Some \<lparr>label = Some ''Condition'',
                    condition = Some \<lparr>cond_field = ''amount'',
                                      cond_operator = ''greater_than'',
                                      cond_value = JNum 200\<rparr>,
                    other = []\<rparr>\<rparr>,
     \<lparr>nid = ''notification-1'', ntype = Some ''notification'', position = (200, 0),
      ndata = Some (getDefaultNodeData ''notification'')\<rparr>,
     \<lparr>nid = ''end-1'', ntype = Some ''end'', position = (200, 200),
      ndata = Some (getDefaultNodeData ''end'')\<rparr>]"

definition condition_edges :: "edge list" where
  "condition_edges =
    [\<lparr>eid = ''edge-1'', source = ''condition-1'', sourceHandle = Some ''true'',
      target = ''notification-1'', targetHandle = None\<rparr>,
     \<lparr>eid = ''edge-2'', source = ''condition-1'', sourceHandle = Some ''false'',
      target = ''end-1'', targetHandle = None\<rparr>]"

text \<open>
  A Payment whose \<open>success\<close> port leads to a Notification and whose \<open>failure\<close> port
  leads to an End.
\<close>

definition payment_nodes :: "node list" where
  "payment_nodes =
    [\<lparr>nid = ''payment-1'', ntype = Some ''payment'', position = (0, 0),
      ndata = Some (getDefaultNodeData ''payment'')\<rparr>,
     \<lparr>nid = ''notification-1'', ntype = Some ''notification'', position = (200, 0),
      ndata = Some (getDefaultNodeData ''notification'')\<rparr>,
     \<lparr>nid = ''end-1'', ntype = Some ''end'', position = (200, 200),
      ndata = Some (getDefaultNodeData ''end'')\<rparr>]"

definition payment_edges :: "edge list" where
  "payment_edges =
    [\<lparr>eid = ''edge-1'', source = ''payment-1'', sourceHandle = Some ''success'',
      target = ''notification-1'', targetHandle = None\<rparr>,
     \<lparr>eid = ''edge-2'', source = ''payment-1'', sourceHandle = Some ''failure'',
      target = ''end-1'', targetHandle = None\<rparr>]"

definition sample_flow :: flow_data where
  "sample_flow =
    \<lparr>nodes = action_nodes, edges = action_edges,
     fd_id = ''flow-1'', fd_name = ''Checkout'', fd_description = [],
     fd_vertical = ''kirana'', fd_version = ''1.0.0'', fd_status = Draft,
     metadata = \<lparr>createdAt = ''1970-01-01T00:00:00.000Z'',
                  updatedAt = ''1970-01-01T00:00:00.000Z'',
                  createdBy = ''current-user'', tags = []\<rparr>\<rparr>"


section \<open>Basic facts\<close>

lemma length_map_index [simp]: "length (map_index f xs) = length xs"
  by (simp add: map_index_def)

lemma nth_map_index [simp]: "i < length xs \<Longrightarrow> map_index f xs ! i = f (xs ! i) i"
  by (simp add: map_index_def nth_enumerate_eq)

lemma map_index_at:
  "map_index (\<lambda>x j. if int j = k then g x else x) xs =
     (if 0 \<le> k \<and> nat k < length xs then xs[nat k := g (xs ! nat k)] else xs)"
  by (rule nth_equalityI) (auto simp: nth_list_update)

lemma set_map_index:
  assumes "y \<in> set (map_index f xs)"
  shows "\<exists>x i. x \<in> set xs \<and> y = f x i"
proof -
  from assms obtain i where "i < length xs" "y = map_index f xs ! i"
    by (metis in_set_conv_nth length_map_index)
  then show ?thesis by (metis nth_map_index nth_mem)
qed

lemma map_view_map_index:
  assumes "map v xs = map v ys"
    and "\<And>x y i. v x = v y \<Longrightarrow> v (g x i) = v (g' y i)"
  shows "map v (map_index g xs) = map v (map_index g' ys)"
proof (rule nth_equalityI)
  have len: "length xs = length ys" using assms(1) by (metis length_map)
  then show "length (map v (map_index g xs)) = length (map v (map_index g' ys))" by simp
  fix i assume "i < length (map v (map_index g xs))"
  then have i: "i < length xs" by simp
  have "map v xs ! i = map v ys ! i" using assms(1) by simp
  then have "v (xs ! i) = v (ys ! i)" using i len by simp
  then have "v (g (xs ! i) i) = v (g' (ys ! i) i)" by (rule assms(2))
  then show "map v (map_index g xs) ! i = map v (map_index g' ys) ! i"
    using i len by simp
qed

lemma map_view_map_index_same:
  assumes "\<And>x i. v (g x i) = v x"
  shows "map v (map_index g xs) = map v xs"
  by (rule nth_equalityI) (simp_all add: assms)

lemma length_initSteps [simp]: "length (initSteps B ns) = length ns"
  by (simp add: initSteps_def)

lemma nth_initSteps_nodeId:
  "j < length ns \<Longrightarrow> nodeId (initSteps B ns ! j) = nid (ns ! j)"
  by (simp add: initSteps_def)

lemma resetStep_idem [simp]: "resetStep (resetStep x) = resetStep x"
  by (simp add: resetStep_def)

lemma map_resetStep_initSteps [simp]: "map resetStep (initSteps B ns) = initSteps B ns"
  by (rule nth_equalityI) (simp_all add: initSteps_def resetStep_def)

section \<open>Operations of the controller\<close>

lemma executeNextStep_cases:
  "executeNextStep now r s =
     (if currentStepIndex r \<ge> int (length (executionSteps r)) then
        Inr (s\<lparr>isPlaying := False\<rparr>, None)
      else if currentStepIndex r < 0 then Inl TypeError
      else Inr (s\<lparr>executionSteps :=
                    map_index (\<lambda>step index. if int index = currentStepIndex r
                                 then markRunning now step else step) (executionSteps s)\<rparr>,
                Some (closure_of r)))"
  unfolding executeNextStep_def markRunning_def closure_of_def Let_def by simp

lemma completeStep_eq:
  "completeStep B env c s =
     s\<lparr>executionSteps :=
         map_index (\<lambda>step index. if int index = cl_index c then sealStep B env c step else step)
           (executionSteps s),
       currentStepIndex := currentStepIndex s + 1\<rparr>"
  unfolding completeStep_def sealStep_def Let_def by simp

lemma resetStep_markRunning [simp]: "resetStep (markRunning now x) = resetStep x"
  by (simp add: resetStep_def markRunning_def)

lemma resetStep_sealStep [simp]: "resetStep (sealStep B env c x) = resetStep x"
  by (simp add: resetStep_def sealStep_def Let_def)

lemma apply_op_frame:
  "nodes (apply_op B op s) = nodes s \<and> edges (apply_op B op s) = edges s"
  by (cases op)
     (auto simp: startSimulation_def pauseSimulation_def stopSimulation_def jumpToStep_def
        executeNextStep_cases completeStep_eq)

lemma apply_op_resetStep:
  "map resetStep (executionSteps (apply_op B op s)) = map resetStep (executionSteps s)"
  by (cases op)
     (auto simp: startSimulation_def pauseSimulation_def stopSimulation_def jumpToStep_def
        executeNextStep_cases completeStep_eq map_view_map_index_same)

lemma never_skipped_mount: "never_skipped (mount B ns es running data)"
  by (auto simp: never_skipped_def mount_def initSteps_def list_all_iff dest!: set_map_index)

lemma never_skipped_apply_op: "never_skipped s \<Longrightarrow> never_skipped (apply_op B op s)"
proof (cases op)
  case (ExecuteNextStep now r)
  assume "never_skipped s"
  then show ?thesis using ExecuteNextStep
    by (auto simp: never_skipped_def executeNextStep_cases markRunning_def list_all_iff
          split: if_splits dest!: set_map_index)
next
  case (Completion env c)
  assume "never_skipped s"
  then show ?thesis using Completion
    by (auto simp: never_skipped_def completeStep_eq sealStep_def Let_def list_all_iff
          split: if_splits dest!: set_map_index)
qed (auto simp: never_skipped_def startSimulation_def pauseSimulation_def stopSimulation_def
       jumpToStep_def resetStep_def list_all_iff)

lemma never_skipped_apply_ops: "never_skipped s \<Longrightarrow> never_skipped (apply_ops B ops s)"
  by (induction ops arbitrary: s) (simp_all add: never_skipped_apply_op)

section \<open>Events of the component\<close>

lemma sim_autoPlayEffect [simp]: "sim (autoPlayEffect w w') = sim w'"
  by (simp add: autoPlayEffect_def)

lemma pending_autoPlayEffect [simp]: "pending (autoPlayEffect w w') = pending w'"
  by (simp add: autoPlayEffect_def)

lemma playbackSpeed_autoPlayEffect [simp]: "playbackSpeed (autoPlayEffect w w') = playbackSpeed w'"
  by (simp add: autoPlayEffect_def)

text \<open>Every event acts on the state as a controller operation, or leaves the steps alone.\<close>

lemma sim_fire:
  "sim (fire B e w) =
    (case e of
      StartSimulation \<Rightarrow> apply_op B Play (sim w)
    | PauseSimulation \<Rightarrow> apply_op B Pause (sim w)
    | StopSimulation \<Rightarrow> apply_op B Stop (sim w)
    | JumpTo k \<Rightarrow> apply_op B (JumpToStep k) (sim w)
    | SetPlaybackSpeed v \<Rightarrow> sim w
    | SetSimulationData d \<Rightarrow> (sim w)\<lparr>simulationData := d\<rparr>
    | TimerFires now \<Rightarrow>
        (case timer w of None \<Rightarrow> sim w | Some r \<Rightarrow> apply_op B (ExecuteNextStep now r) (sim w))
    | CompletionFires k env \<Rightarrow>
        (if k < length (pending w) then apply_op B (Completion env (pending w ! k)) (sim w)
         else sim w))"
  by (cases e) (auto split: option.splits sum.splits prod.splits)

lemma fire_frame:
  "nodes (sim (fire B e w)) = nodes (sim w) \<and> edges (sim (fire B e w)) = edges (sim w)"
  unfolding sim_fire
  by (cases e) (simp_all add: apply_op_frame del: apply_op.simps split: option.splits)

lemma fire_resetStep:
  "map resetStep (executionSteps (sim (fire B e w))) = map resetStep (executionSteps (sim w))"
  unfolding sim_fire
  by (cases e) (simp_all add: apply_op_resetStep del: apply_op.simps split: option.splits)

lemma never_skipped_fire: "never_skipped (sim w) \<Longrightarrow> never_skipped (sim (fire B e w))"
  unfolding sim_fire
  by (cases e)
     (simp_all add: never_skipped_apply_op del: apply_op.simps split: option.splits,
      simp add: never_skipped_def)

lemma run_events_frame:
  "nodes (sim (run_events B evs w)) = nodes (sim w) \<and>
   edges (sim (run_events B evs w)) = edges (sim w)"
  by (induction evs arbitrary: w) (simp_all add: fire_frame)

lemma run_events_resetStep:
  "map resetStep (executionSteps (sim (run_events B evs w))) =
   map resetStep (executionSteps (sim w))"
  by (induction evs arbitrary: w) (simp_all add: fire_resetStep)

lemma never_skipped_run_events:
  "never_skipped (sim w) \<Longrightarrow> never_skipped (sim (run_events B evs w))"
  by (induction evs arbitrary: w) (simp_all add: never_skipped_fire)

text \<open>A timer is set only while the simulator is playing.\<close>

lemma timer_ok_fire: "timer_ok w \<Longrightarrow> timer_ok (fire B e w)"
  by (cases e)
     (auto simp: timer_ok_def autoPlayEffect_def autoPlayDeps_def startSimulation_def
        pauseSimulation_def stopSimulation_def jumpToStep_def executeNextStep_cases
        completeStep_eq split: option.splits if_splits)

lemma timer_ok_run_events: "timer_ok w \<Longrightarrow> timer_ok (run_events B evs w)"
  by (induction evs arbitrary: w) (simp_all add: timer_ok_fire)

section \<open>Auto-play without interruption\<close>

text \<open>
  One step of auto-play left alone: the timer set in the current render fires, then the
  completion it scheduled; the step at the current index is executed, the index advances,
  and the timer is set again if a step is left.
\<close>

lemma closure_of_simps [simp]:
  "cl_index (closure_of r) = currentStepIndex r"
  "cl_data (closure_of r) = simulationData r"
  "cl_node (closure_of r) =
     find (\<lambda>n. nid n = nodeId (executionSteps r ! nat (currentStepIndex r))) (nodes r)"
  by (simp_all add: closure_of_def)

lemma uninterrupted_step:
  assumes "timer w = Some (sim w)" and "pending w = []"
    and "0 \<le> currentStepIndex (sim w)"
    and "currentStepIndex (sim w) < int (length (executionSteps (sim w)))"
    and "isPlaying (sim w)"
  shows "fire B (CompletionFires 0 env) (fire B (TimerFires (now_start env)) w) =
         w\<lparr>sim := (sim w)\<lparr>executionSteps :=
                      (executionSteps (sim w))[nat (currentStepIndex (sim w)) := executed B env (sim w)],
                    currentStepIndex := currentStepIndex (sim w) + 1\<rparr>,
           timer := (if currentStepIndex (sim w) + 1 < int (length (executionSteps (sim w)))
                     then Some ((sim w)\<lparr>executionSteps :=
                      (executionSteps (sim w))[nat (currentStepIndex (sim w)) := executed B env (sim w)],
                    currentStepIndex := currentStepIndex (sim w) + 1\<rparr>) else None)\<rparr>"
proof -
  have "w\<lparr>pending := []\<rparr> = w" using assms(2) by simp
  then show ?thesis
    using assms
    by (simp add: executeNextStep_cases completeStep_eq autoPlayEffect_def autoPlayDeps_def
          map_index_at executed_def)
qed

lemma stepEvents_Cons [simp]:
  "stepEvents (env # envs) = TimerFires (now_start env) # CompletionFires 0 env # stepEvents envs"
  by (simp add: stepEvents_def)

lemma stepEvents_Nil [simp]: "stepEvents [] = []"
  by (simp add: stepEvents_def)

text \<open>
  Auto-play left alone, from any state in which the timer of the current render is set:
  the steps before the current index stay as they are, and each later step is executed
  once, with the draws and clock readings read in turn.
\<close>

lemma uninterrupted_from:
  "isPlaying (sim w) \<Longrightarrow> 0 \<le> currentStepIndex (sim w) \<Longrightarrow>
   currentStepIndex (sim w) \<le> int (length (executionSteps (sim w))) \<Longrightarrow>
   pending w = [] \<Longrightarrow>
   timer w = (if currentStepIndex (sim w) < int (length (executionSteps (sim w)))
              then Some (sim w) else None) \<Longrightarrow>
   length (executionSteps (sim w)) - nat (currentStepIndex (sim w)) \<le> length envs \<Longrightarrow>
   pending (run_events B (stepEvents envs) w) = [] \<and>
   currentStepIndex (sim (run_events B (stepEvents envs) w)) = int (length (executionSteps (sim w))) \<and>
   length (executionSteps (sim (run_events B (stepEvents envs) w))) = length (executionSteps (sim w)) \<and>
   (\<forall>j < length (executionSteps (sim w)).
      executionSteps (sim (run_events B (stepEvents envs) w)) ! j =
        (if j < nat (currentStepIndex (sim w)) then executionSteps (sim w) ! j
         else sealStep B (envs ! (j - nat (currentStepIndex (sim w))))
                \<lparr>cl_index = int j,
                 cl_node = find (\<lambda>n. nid n = nodeId (executionSteps (sim w) ! j)) (nodes (sim w)),
                 cl_data = simulationData (sim w)\<rparr>
                (markRunning (now_start (envs ! (j - nat (currentStepIndex (sim w)))))
                   (executionSteps (sim w) ! j))))"
proof (induction envs arbitrary: w)
  case Nil
  then show ?case by simp
next
  case (Cons env envs)
  let ?i = "nat (currentStepIndex (sim w))"
  let ?n = "length (executionSteps (sim w))"
  show ?case
  proof (cases "currentStepIndex (sim w) < int ?n")
    case False
    then have t: "timer w = None" using Cons.prems(5) by simp
    have noop: "run_events B (stepEvents (env # envs)) w = run_events B (stepEvents envs) w"
      using t Cons.prems(4) by simp
    have "pending (run_events B (stepEvents envs) w) = [] \<and>
          currentStepIndex (sim (run_events B (stepEvents envs) w)) = int ?n \<and>
          length (executionSteps (sim (run_events B (stepEvents envs) w))) = ?n \<and>
          (\<forall>j < ?n. executionSteps (sim (run_events B (stepEvents envs) w)) ! j =
            (if j < ?i then executionSteps (sim w) ! j
             else sealStep B (envs ! (j - ?i))
                \<lparr>cl_index = int j,
                 cl_node = find (\<lambda>n. nid n = nodeId (executionSteps (sim w) ! j)) (nodes (sim w)),
                 cl_data = simulationData (sim w)\<rparr>
                (markRunning (now_start (envs ! (j - ?i))) (executionSteps (sim w) ! j))))"
      by (rule Cons.IH) (use Cons.prems False in simp_all)
    then show ?thesis unfolding noop using False Cons.prems(2,3) by simp
  next
    case True
    let ?s2 = "(sim w)\<lparr>executionSteps := (executionSteps (sim w))[?i := executed B env (sim w)],
                       currentStepIndex := currentStepIndex (sim w) + 1\<rparr>"
    let ?w2 = "w\<lparr>sim := ?s2,
                 timer := (if currentStepIndex (sim w) + 1 < int ?n then Some ?s2 else None)\<rparr>"
    have tm: "timer w = Some (sim w)" using Cons.prems(5) True by simp
    have step: "fire B (CompletionFires 0 env) (fire B (TimerFires (now_start env)) w) = ?w2"
      by (rule uninterrupted_step [OF tm Cons.prems(4) Cons.prems(2) True Cons.prems(1)])
    have run: "run_events B (stepEvents (env # envs)) w = run_events B (stepEvents envs) ?w2"
      by (simp add: step del: fire.simps)
    have i: "?i < ?n" using True Cons.prems(2) by simp
    have IH: "pending (run_events B (stepEvents envs) ?w2) = [] \<and>
          currentStepIndex (sim (run_events B (stepEvents envs) ?w2))
                = int (length (executionSteps (sim ?w2))) \<and>
          length (executionSteps (sim (run_events B (stepEvents envs) ?w2)))
                = length (executionSteps (sim ?w2)) \<and>
          (\<forall>j < length (executionSteps (sim ?w2)).
            executionSteps (sim (run_events B (stepEvents envs) ?w2)) ! j =
            (if j < nat (currentStepIndex (sim ?w2)) then executionSteps (sim ?w2) ! j
             else sealStep B (envs ! (j - nat (currentStepIndex (sim ?w2))))
                \<lparr>cl_index = int j,
                 cl_node = find (\<lambda>n. nid n = nodeId (executionSteps (sim ?w2) ! j)) (nodes (sim ?w2)),
                 cl_data = simulationData (sim ?w2)\<rparr>
                (markRunning (now_start (envs ! (j - nat (currentStepIndex (sim ?w2)))))
                   (executionSteps (sim ?w2) ! j))))"
      by (rule Cons.IH) (use Cons.prems True in \<open>simp_all add: nat_add_distrib\<close>)
    have idx2: "nat (currentStepIndex (sim ?w2)) = Suc ?i" using Cons.prems(2) by (simp add: nat_add_distrib)
    have each: "executionSteps (sim (run_events B (stepEvents envs) ?w2)) ! j =
            (if j < ?i then executionSteps (sim w) ! j
             else sealStep B ((env # envs) ! (j - ?i))
                \<lparr>cl_index = int j,
                 cl_node = find (\<lambda>n. nid n = nodeId (executionSteps (sim w) ! j)) (nodes (sim w)),
                 cl_data = simulationData (sim w)\<rparr>
                (markRunning (now_start ((env # envs) ! (j - ?i))) (executionSteps (sim w) ! j)))"
      if j: "j < ?n" for j
    proof -
      from IH j have e: "executionSteps (sim (run_events B (stepEvents envs) ?w2)) ! j =
            (if j < Suc ?i then executionSteps (sim ?w2) ! j
             else sealStep B (envs ! (j - Suc ?i))
                \<lparr>cl_index = int j,
                 cl_node = find (\<lambda>n. nid n = nodeId (executionSteps (sim ?w2) ! j)) (nodes (sim ?w2)),
                 cl_data = simulationData (sim ?w2)\<rparr>
                (markRunning (now_start (envs ! (j - Suc ?i))) (executionSteps (sim ?w2) ! j)))"
        unfolding idx2 by simp
      consider "j < ?i" | "j = ?i" | "?i < j" by linarith
      then show ?thesis
      proof cases
        case 1
        then show ?thesis using e j by simp
      next
        case 2
        have "closure_of (sim w) =
              \<lparr>cl_index = int ?i,
               cl_node = find (\<lambda>n. nid n = nodeId (executionSteps (sim w) ! ?i)) (nodes (sim w)),
               cl_data = simulationData (sim w)\<rparr>"
          using Cons.prems(2) by (simp add: closure_of_def)
        then show ?thesis using e j 2 i by (simp add: executed_def)
      next
        case 3
        then have "(env # envs) ! (j - ?i) = envs ! (j - Suc ?i)" by (simp add: nth_Cons')
        then show ?thesis using e j 3 by simp
      qed
    qed
    show ?thesis unfolding run using IH each by simp
  qed
qed

lemma find_distinct:
  "distinct (map nid ns) \<Longrightarrow> j < length ns \<Longrightarrow>
   find (\<lambda>n. nid n = nid (ns ! j)) ns = Some (ns ! j)"
proof (induction ns arbitrary: j)
  case Nil
  then show ?case by simp
next
  case (Cons a ns)
  show ?case
  proof (cases j)
    case 0
    then show ?thesis by simp
  next
    case (Suc i)
    then have i: "i < length ns" using Cons.prems(2) by simp
    then have "nid (ns ! i) \<in> set (map nid ns)" by simp
    then have "nid a \<noteq> nid (ns ! i)" using Cons.prems(1) by auto
    moreover have "find (\<lambda>n. nid n = nid (ns ! i)) ns = Some (ns ! i)"
      by (rule Cons.IH) (use Cons.prems(1) i in simp_all)
    ultimately show ?thesis using Suc by simp
  qed
qed

lemma start_mountRuntime:
  "fire B StartSimulation (mountRuntime B ns es running data) =
     \<lparr>sim = (mount B ns es running data)\<lparr>isPlaying := True\<rparr>, playbackSpeed = 1,
      timer = (if ns = [] then None else Some ((mount B ns es running data)\<lparr>isPlaying := True\<rparr>)),
      pending = []\<rparr>"
  by (simp add: mountRuntime_def mount_def startSimulation_def autoPlayEffect_def
        autoPlayDeps_def)

lemma nodeId_sealStep [simp]: "nodeId (sealStep B env c x) = nodeId x"
  by (simp add: sealStep_def Let_def)

lemma nodeId_markRunning [simp]: "nodeId (markRunning now x) = nodeId x"
  by (simp add: markRunning_def)

lemma sealed_sealStep [simp]: "sealed (sealStep B env c x)"
  by (simp add: sealStep_def sealed_def Let_def)

lemma uninterrupted_mount:
  assumes "length ns \<le> length envs"
  shows "pending (run_events B (uninterrupted envs) (mountRuntime B ns es running data)) = [] \<and>
         currentStepIndex
           (sim (run_events B (uninterrupted envs) (mountRuntime B ns es running data)))
           = int (length ns) \<and>
         executionSteps
           (sim (run_events B (uninterrupted envs) (mountRuntime B ns es running data)))
           = map (\<lambda>j. executedRecord B ns data (envs ! j) j) [0..<length ns]"
proof -
  define w where "w = fire B StartSimulation (mountRuntime B ns es running data)"
  let ?W = "run_events B (stepEvents envs) w"
  have w: "w = \<lparr>sim = (mount B ns es running data)\<lparr>isPlaying := True\<rparr>, playbackSpeed = 1,
                timer = (if ns = [] then None
                         else Some ((mount B ns es running data)\<lparr>isPlaying := True\<rparr>)),
                pending = []\<rparr>"
    unfolding w_def by (rule start_mountRuntime)
  have s: "sim w = (mount B ns es running data)\<lparr>isPlaying := True\<rparr>"
    and p: "pending w = []"
    unfolding w by simp_all
  have st: "executionSteps (sim w) = initSteps B ns" and i: "currentStepIndex (sim w) = 0"
    and n: "nodes (sim w) = ns" and d: "simulationData (sim w) = data"
    and pl: "isPlaying (sim w)"
    unfolding s by (simp_all add: mount_def)
  have t: "timer w = (if currentStepIndex (sim w) < int (length (executionSteps (sim w)))
                      then Some (sim w) else None)"
    unfolding st i unfolding w by simp
  have l: "length (executionSteps (sim w)) - nat (currentStepIndex (sim w)) \<le> length envs"
    unfolding st i using assms by simp
  have i0: "0 \<le> currentStepIndex (sim w)"
    and i1: "currentStepIndex (sim w) \<le> int (length (executionSteps (sim w)))"
    unfolding i by simp_all
  have "pending ?W = [] \<and>
        currentStepIndex (sim ?W) = int (length (executionSteps (sim w))) \<and>
        length (executionSteps (sim ?W)) = length (executionSteps (sim w)) \<and>
        (\<forall>j < length (executionSteps (sim w)).
           executionSteps (sim ?W) ! j =
             (if j < nat (currentStepIndex (sim w)) then executionSteps (sim w) ! j
              else sealStep B (envs ! (j - nat (currentStepIndex (sim w))))
                     \<lparr>cl_index = int j,
                      cl_node = find (\<lambda>n. nid n = nodeId (executionSteps (sim w) ! j))
                                  (nodes (sim w)),
                      cl_data = simulationData (sim w)\<rparr>
                     (markRunning (now_start (envs ! (j - nat (currentStepIndex (sim w)))))
                        (executionSteps (sim w) ! j))))"
    by (rule uninterrupted_from [OF pl i0 i1 p t l])
  then have a: "pending ?W = []" and b: "currentStepIndex (sim ?W) = int (length ns)"
    and c: "length (executionSteps (sim ?W)) = length ns"
    and e: "\<forall>j < length ns. executionSteps (sim ?W) ! j =
              sealStep B (envs ! j)
                \<lparr>cl_index = int j,
                 cl_node = find (\<lambda>n. nid n = nodeId (initSteps B ns ! j)) ns,
                 cl_data = data\<rparr>
                (markRunning (now_start (envs ! j)) (initSteps B ns ! j))"
    unfolding st i n d by simp_all
  have "executionSteps (sim ?W) = map (\<lambda>j. executedRecord B ns data (envs ! j) j) [0..<length ns]"
  proof (rule nth_equalityI)
    show "length (executionSteps (sim ?W)) =
          length (map (\<lambda>j. executedRecord B ns data (envs ! j) j) [0..<length ns])"
      using c by simp
    fix j assume "j < length (executionSteps (sim ?W))"
    then have j: "j < length ns" using c by simp
    show "executionSteps (sim ?W) ! j =
          map (\<lambda>j. executedRecord B ns data (envs ! j) j) [0..<length ns] ! j"
      using e j by (simp add: executedRecord_def nth_initSteps_nodeId)
  qed
  with a b show ?thesis unfolding uninterrupted_def run_events.simps w_def by simp
qed

section \<open>Events that read the same draws\<close>

text \<open>
  With the same draws, \<open>simulateNodeExecution\<close> gives the same error and logs, and the
  same output up to the time stamp of a start or end node.
\<close>

lemma sim_same_draws:
  assumes "same_draws e e'"
  shows "scrub (result_output (simulateNodeExecution B e n d)) =
           scrub (result_output (simulateNodeExecution B e' n d)) \<and>
         result_error (simulateNodeExecution B e n d) =
           result_error (simulateNodeExecution B e' n d) \<and>
         result_logs (simulateNodeExecution B e n d) =
           result_logs (simulateNodeExecution B e' n d)"
  using assms
  by (cases n) (simp_all add: simulateNodeExecution_def scrub_def same_draws_def Let_def)

lemma map_view_map:
  assumes "map v xs = map v ys"
    and "\<And>x y. v x = v y \<Longrightarrow> v (g x) = v (g' y)"
  shows "map v (map g xs) = map v (map g' ys)"
proof (rule nth_equalityI)
  have len: "length xs = length ys" using assms(1) by (metis length_map)
  then show "length (map v (map g xs)) = length (map v (map g' ys))" by simp
  fix i assume "i < length (map v (map g xs))"
  then have i: "i < length xs" by simp
  have "map v xs ! i = map v ys ! i" using assms(1) by simp
  then have "v (xs ! i) = v (ys ! i)" using i len by simp
  then have "v (g (xs ! i)) = v (g' (ys ! i))" by (rule assms(2))
  then show "map v (map g xs) ! i = map v (map g' ys) ! i"
    using i len by simp
qed

lemma alike_length: "alike s s' \<Longrightarrow> length (executionSteps s) = length (executionSteps s')"
  by (metis alike_def length_map)

lemma alike_refl [simp]: "alike s s"
  by (simp add: alike_def)

lemma clock_free_resetStep:
  "clock_free x = clock_free y \<Longrightarrow> clock_free (resetStep x) = clock_free (resetStep y)"
  by (simp add: clock_free_def resetStep_def)

lemma clock_free_markRunning:
  "clock_free x = clock_free y \<Longrightarrow>
   clock_free (markRunning now x) = clock_free (markRunning now' y)"
  by (simp add: clock_free_def markRunning_def)

lemma clock_free_sealStep:
  assumes "same_draws e e'" and "clock_free x = clock_free y"
  shows "clock_free (sealStep B e c x) = clock_free (sealStep B e' c y)"
  using assms sim_same_draws [OF assms(1), of B "cl_node c" "cl_data c"]
  by (simp add: clock_free_def sealStep_def Let_def same_draws_def)

lemma map_clock_free_resetStep:
  assumes "map clock_free xs = map clock_free ys"
  shows "map (clock_free \<circ> resetStep) xs = map (clock_free \<circ> resetStep) ys"
proof -
  have "map clock_free (map resetStep xs) = map clock_free (map resetStep ys)"
    by (rule map_view_map [OF assms]) (rule clock_free_resetStep)
  then show ?thesis by simp
qed

lemma startSimulation_alike:
  assumes "alike s s'"
  shows "alike (startSimulation s) (startSimulation s')"
proof -
  have len: "length (executionSteps s') = length (executionSteps s)"
    using alike_length [OF assms] by simp
  have idx: "currentStepIndex s' = currentStepIndex s" and p: "isPlaying s' = isPlaying s"
    and n: "nodes s' = nodes s" and d: "simulationData s' = simulationData s"
    and c: "map clock_free (executionSteps s) = map clock_free (executionSteps s')"
    using assms by (simp_all add: alike_def)
  have r: "map (clock_free \<circ> resetStep) (executionSteps s) =
           map (clock_free \<circ> resetStep) (executionSteps s')"
    by (rule map_clock_free_resetStep [OF c])
  show ?thesis
    unfolding alike_def startSimulation_def
    using r c n d len idx p by simp
qed

lemma pauseSimulation_alike: "alike s s' \<Longrightarrow> alike (pauseSimulation s) (pauseSimulation s')"
  by (simp add: alike_def pauseSimulation_def)

lemma stopSimulation_alike:
  assumes "alike s s'"
  shows "alike (stopSimulation s) (stopSimulation s')"
proof -
  have n: "nodes s' = nodes s" and d: "simulationData s' = simulationData s"
    and c: "map clock_free (executionSteps s) = map clock_free (executionSteps s')"
    using assms by (simp_all add: alike_def)
  have r: "map (clock_free \<circ> resetStep) (executionSteps s) =
           map (clock_free \<circ> resetStep) (executionSteps s')"
    by (rule map_clock_free_resetStep [OF c])
  show ?thesis
    unfolding alike_def stopSimulation_def using r n d by simp
qed

lemma jumpToStep_alike: "alike s s' \<Longrightarrow> alike (jumpToStep k s) (jumpToStep k s')"
  by (simp add: alike_def jumpToStep_def)

lemma closure_of_alike:
  assumes "alike r r'" and "0 \<le> currentStepIndex r"
    and "currentStepIndex r < int (length (executionSteps r))"
  shows "closure_of r = closure_of r'"
proof -
  let ?i = "nat (currentStepIndex r)"
  have len: "length (executionSteps r) = length (executionSteps r')"
    by (rule alike_length [OF assms(1)])
  have i: "?i < length (executionSteps r)" using assms(2,3) by simp
  have "map clock_free (executionSteps r) ! ?i = map clock_free (executionSteps r') ! ?i"
    using assms(1) by (simp add: alike_def)
  then have "clock_free (executionSteps r ! ?i) = clock_free (executionSteps r' ! ?i)"
    using i len by simp
  then have "nodeId (executionSteps r ! ?i) = nodeId (executionSteps r' ! ?i)"
    by (simp add: clock_free_def)
  then show ?thesis using assms(1) by (simp add: closure_of_def alike_def)
qed

lemma executeNextStep_alike:
  assumes "alike r r'" and "alike s s'"
  shows "(\<exists>x. executeNextStep now r s = Inl x \<and> executeNextStep now' r' s' = Inl x) \<or>
         (\<exists>t t' c. executeNextStep now r s = Inr (t, c) \<and>
                    executeNextStep now' r' s' = Inr (t', c) \<and> alike t t')"
proof -
  have len: "length (executionSteps r) = length (executionSteps r')"
    by (rule alike_length [OF assms(1)])
  have idx: "currentStepIndex r' = currentStepIndex r" using assms(1) by (simp add: alike_def)
  show ?thesis
  proof (cases "currentStepIndex r \<ge> int (length (executionSteps r))")
    case True
    then show ?thesis using assms(2) len idx
      by (simp add: executeNextStep_cases alike_def)
  next
    case False
    show ?thesis
    proof (cases "currentStepIndex r < 0")
      case True
      then show ?thesis using False len idx by (simp add: executeNextStep_cases)
    next
      case nonneg: False
      have cl: "closure_of r = closure_of r'"
        by (rule closure_of_alike [OF assms(1)]) (use False nonneg in simp_all)
      have "map clock_free
              (map_index (\<lambda>step index. if int index = currentStepIndex r
                            then markRunning now step else step) (executionSteps s)) =
            map clock_free
              (map_index (\<lambda>step index. if int index = currentStepIndex r
                            then markRunning now' step else step) (executionSteps s'))"
        by (rule map_view_map_index)
           (use assms(2) in \<open>simp_all add: alike_def clock_free_markRunning\<close>)
      then show ?thesis using False nonneg len idx cl assms(2)
        by (simp add: executeNextStep_cases alike_def)
    qed
  qed
qed

lemma completeStep_alike:
  assumes "same_draws e e'" and "alike s s'"
  shows "alike (completeStep B e c s) (completeStep B e' c s')"
proof -
  have "map clock_free
          (map_index (\<lambda>step index. if int index = cl_index c then sealStep B e c step else step)
             (executionSteps s)) =
        map clock_free
          (map_index (\<lambda>step index. if int index = cl_index c then sealStep B e' c step else step)
             (executionSteps s'))"
    by (rule map_view_map_index)
       (use assms in \<open>simp_all add: alike_def clock_free_sealStep\<close>)
  then show ?thesis using assms(2) by (simp add: completeStep_eq alike_def)
qed

lemma autoPlayEffect_alike:
  assumes "alike_runtime v v'" and "alike_runtime w w'"
  shows "alike_runtime (autoPlayEffect v w) (autoPlayEffect v' w')"
proof -
  have d1: "autoPlayDeps v = autoPlayDeps v'"
    using assms(1) alike_length [of "sim v" "sim v'"]
    by (simp add: autoPlayDeps_def alike_runtime_def alike_def)
  have d2: "autoPlayDeps w = autoPlayDeps w'"
    using assms(2) alike_length [of "sim w" "sim w'"]
    by (simp add: autoPlayDeps_def alike_runtime_def alike_def)
  have l: "length (executionSteps (sim w)) = length (executionSteps (sim w'))"
    using assms(2) alike_length [of "sim w" "sim w'"] by (simp add: alike_runtime_def)
  show ?thesis
    using assms(2) l unfolding autoPlayEffect_def d1 d2
    by (simp add: alike_runtime_def alike_def)
qed

text \<open>
  The same event, with the same draws, on two states of the component that differ in
  clock readings at most, leaves two such states.
\<close>

lemma fire_alike:
  assumes "same_event e e'" and "alike_runtime w w'"
  shows "alike_runtime (fire B e w) (fire B e' w')"
proof (cases e)
  case StartSimulation
  then have e': "e' = StartSimulation" using assms(1) by (cases e') simp_all
  show ?thesis unfolding StartSimulation e' fire.simps
    by (rule autoPlayEffect_alike [OF assms(2)])
       (use assms(2) in \<open>simp add: alike_runtime_def startSimulation_alike\<close>)
next
  case PauseSimulation
  then have e': "e' = PauseSimulation" using assms(1) by (cases e') simp_all
  show ?thesis unfolding PauseSimulation e' fire.simps
    by (rule autoPlayEffect_alike [OF assms(2)])
       (use assms(2) in \<open>simp add: alike_runtime_def pauseSimulation_alike\<close>)
next
  case StopSimulation
  then have e': "e' = StopSimulation" using assms(1) by (cases e') simp_all
  show ?thesis unfolding StopSimulation e' fire.simps
    by (rule autoPlayEffect_alike [OF assms(2)])
       (use assms(2) in \<open>simp add: alike_runtime_def stopSimulation_alike\<close>)
next
  case (JumpTo k)
  then have e': "e' = JumpTo k" using assms(1) by (cases e') simp_all
  show ?thesis unfolding JumpTo e' fire.simps
    by (rule autoPlayEffect_alike [OF assms(2)])
       (use assms(2) in \<open>simp add: alike_runtime_def jumpToStep_alike\<close>)
next
  case (SetPlaybackSpeed v)
  then have e': "e' = SetPlaybackSpeed v" using assms(1) by (cases e') simp_all
  show ?thesis unfolding SetPlaybackSpeed e' fire.simps
    by (rule autoPlayEffect_alike [OF assms(2)])
       (use assms(2) in \<open>simp add: alike_runtime_def\<close>)
next
  case (SetSimulationData d)
  then have e': "e' = SetSimulationData d" using assms(1) by (cases e') simp_all
  show ?thesis unfolding SetSimulationData e' fire.simps
    by (rule autoPlayEffect_alike [OF assms(2)])
       (use assms(2) in \<open>simp add: alike_runtime_def alike_def\<close>)
next
  case (TimerFires now)
  then obtain now' where e': "e' = TimerFires now'" using assms(1) by (cases e') simp_all
  show ?thesis
  proof (cases "timer w")
    case None
    then have "timer w' = None" using assms(2) by (simp add: alike_runtime_def)
    then show ?thesis unfolding TimerFires e' using None assms(2) by simp
  next
    case (Some r)
    then obtain r' where r': "timer w' = Some r'" and rr: "alike r r'"
      using assms(2) by (auto simp: alike_runtime_def option.rel_sel)
    have ss: "alike (sim w) (sim w')" using assms(2) by (simp add: alike_runtime_def)
    from executeNextStep_alike [OF rr ss, of now now']
    show ?thesis
    proof
      assume "\<exists>x. executeNextStep now r (sim w) = Inl x \<and>
                  executeNextStep now' r' (sim w') = Inl x"
      then show ?thesis unfolding TimerFires e' using Some r' assms(2)
        by (auto simp: alike_runtime_def)
    next
      assume "\<exists>t t' c. executeNextStep now r (sim w) = Inr (t, c) \<and>
                executeNextStep now' r' (sim w') = Inr (t', c) \<and> alike t t'"
      then obtain t t' c where a: "executeNextStep now r (sim w) = Inr (t, c)"
        and b: "executeNextStep now' r' (sim w') = Inr (t', c)" and tt: "alike t t'"
        by blast
      have "alike_runtime
              (autoPlayEffect w (w\<lparr>sim := t, timer := None,
                 pending := pending w @ (case c of None \<Rightarrow> [] | Some c' \<Rightarrow> [c'])\<rparr>))
              (autoPlayEffect w' (w'\<lparr>sim := t', timer := None,
                 pending := pending w' @ (case c of None \<Rightarrow> [] | Some c' \<Rightarrow> [c'])\<rparr>))"
        by (rule autoPlayEffect_alike [OF assms(2)])
           (use assms(2) tt in \<open>simp add: alike_runtime_def\<close>)
      then show ?thesis unfolding TimerFires e' using Some r' a b by simp
    qed
  qed
next
  case (CompletionFires k env)
  then obtain env' where e': "e' = CompletionFires k env'" and sd: "same_draws env env'"
    using assms(1) by (cases e') simp_all
  have p: "pending w' = pending w" using assms(2) by (simp add: alike_runtime_def)
  show ?thesis
  proof (cases "k < length (pending w)")
    case False
    then show ?thesis unfolding CompletionFires e' using p assms(2) by simp
  next
    case True
    have "alike_runtime
            (autoPlayEffect w (w\<lparr>sim := completeStep B env (pending w ! k) (sim w),
               pending := take k (pending w) @ drop (Suc k) (pending w)\<rparr>))
            (autoPlayEffect w' (w'\<lparr>sim := completeStep B env' (pending w ! k) (sim w'),
               pending := take k (pending w) @ drop (Suc k) (pending w)\<rparr>))"
      by (rule autoPlayEffect_alike [OF assms(2)])
         (use assms(2) sd in \<open>simp add: alike_runtime_def completeStep_alike\<close>)
    then show ?thesis unfolding CompletionFires e' using True p by simp
  qed
qed

lemma run_events_alike:
  "list_all2 same_event evs evs' \<Longrightarrow> alike_runtime w w' \<Longrightarrow>
   alike_runtime (run_events B evs w) (run_events B evs' w')"
proof (induction evs evs' arbitrary: w w' rule: list_all2_induct)
  case Nil
  then show ?case by simp
next
  case (Cons e evs e' evs')
  have "alike_runtime (fire B e w) (fire B e' w')"
    by (rule fire_alike [OF Cons.hyps(1) Cons.prems])
  then have "alike_runtime (run_events B evs (fire B e w)) (run_events B evs' (fire B e' w'))"
    by (rule Cons.IH)
  then show ?case by simp
qed

lemma timer_ok_mountRuntime: "timer_ok (mountRuntime B ns es running data)"
  by (simp add: timer_ok_def mountRuntime_def)

text \<open>
  Stop gives the mounted component back, up to the \<open>isRunning\<close> prop, when no
  completion is scheduled and the test data and the playback speed are the initial ones.
\<close>

lemma stop_restores_mount:
  assumes "pending (run_events B evs (mountRuntime B ns es running data)) = []"
    and "simulationData (sim (run_events B evs (mountRuntime B ns es running data))) = data"
    and "playbackSpeed (run_events B evs (mountRuntime B ns es running data)) = 1"
  shows "alike_runtime (mountRuntime B ns es running data)
           (fire B StopSimulation (run_events B evs (mountRuntime B ns es running data)))"
proof -
  let ?m = "mountRuntime B ns es running data"
  let ?w = "run_events B evs ?m"
  have t: "timer (fire B StopSimulation ?w) = None"
    using timer_ok_run_events [OF timer_ok_mountRuntime, of B evs B ns es running data]
    by (auto simp: timer_ok_def autoPlayEffect_def autoPlayDeps_def stopSimulation_def)
  have "map resetStep (executionSteps (sim ?w)) = map resetStep (executionSteps (sim ?m))"
    by (rule run_events_resetStep)
  then have st: "map resetStep (executionSteps (sim ?w)) = initSteps B ns"
    by (simp add: mountRuntime_def mount_def)
  have n: "nodes (sim ?w) = ns"
    using run_events_frame [of B evs ?m] by (simp add: mountRuntime_def mount_def)
  show ?thesis
    using t st n assms
    by (simp add: alike_runtime_def alike_def stopSimulation_def mountRuntime_def mount_def)
qed

section \<open>One completion\<close>

lemmas sim_unfold =
  mountRuntime_def mount_def initSteps_def map_index_def startSimulation_def stopSimulation_def
  pauseSimulation_def jumpToStep_def resetStep_def executeNextStep_def completeStep_def
  autoPlayEffect_def autoPlayDeps_def uninterrupted_def stepEvents_def
  simulateNodeExecution_def substr_def nodeNameOf_def getDefaultNodeData_def
  sample_builtins_def sample_data_def Let_def

text \<open>What one completion does to the state and to the timer when it fires.\<close>

lemma sim_completion_fires:
  assumes "k < length (pending w)"
  shows "sim (fire B (CompletionFires k env) w) = completeStep B env (pending w ! k) (sim w)"
  using assms by simp

lemma timer_completion_fires:
  assumes "k < length (pending w)"
  shows "timer (fire B (CompletionFires k env) w) =
           (if isPlaying (sim w) \<and>
               currentStepIndex (sim w) + 1 < int (length (executionSteps (sim w)))
            then Some (completeStep B env (pending w ! k) (sim w)) else None)"
  using assms by (simp add: autoPlayEffect_def autoPlayDeps_def completeStep_eq)

lemma sealed_step_at:
  assumes "0 \<le> cl_index c" and "cl_index c < int (length (executionSteps s))"
  shows "executionSteps (completeStep B env c s) ! nat (cl_index c) =
           sealStep B env c (executionSteps s ! nat (cl_index c))"
  using assms by (simp add: completeStep_eq)

lemma condition_result:
  assumes "ntype node = Some ''condition''"
  shows "result_output (simulateNodeExecution B env (Some node) data) =
           JObj [(''condition'', JBool (node_random env > 0.5)),
                 (''branch'', JStr (if node_random env > 0.5 then ''true'' else ''false''))]"
  using assms by (simp add: simulateNodeExecution_def Let_def)

section \<open>Claims about the simulator\<close>

subsection \<open>C1: the branch of a Condition node\<close>

text \<open>
  C1, as the code has it. When the completion of a Condition node's step fires, the
  result computed for the node is \<open>{condition, branch}\<close> with \<open>condition\<close> the outcome
  of \<open>Math.random() > 0.5\<close> and \<open>branch\<close> its text, whatever the node's condition
  config (\<open>field\<close>, \<open>operator\<close>, \<open>value\<close>) and the simulation data are. The step
  records this output when the execution succeeds (its success draw exceeds 0.1), and
  records no output when it fails. No edge is followed: the current step index advances
  by one whatever the branch, and the edges of the flow play no part in the state that
  the completion leaves.
\<close>

theorem condition_branch_is_the_random_draw:
  assumes "k < length (pending w)"
    and "cl_node (pending w ! k) = Some node"
    and "ntype node = Some ''condition''"
    and "0 \<le> cl_index (pending w ! k)"
    and "cl_index (pending w ! k) < int (length (executionSteps (sim w)))"
  shows "result_output (simulateNodeExecution B env (Some node) (cl_data (pending w ! k))) =
           JObj [(''condition'', JBool (node_random env > 0.5)),
                 (''branch'', JStr (if node_random env > 0.5 then ''true'' else ''false''))] \<and>
         step_output (executionSteps (sim (fire B (CompletionFires k env) w))
                        ! nat (cl_index (pending w ! k))) =
           (if random_success env > 0.1
            then JObj [(''condition'', JBool (node_random env > 0.5)),
                       (''branch'', JStr (if node_random env > 0.5 then ''true'' else ''false''))]
            else JUndefined) \<and>
         currentStepIndex (sim (fire B (CompletionFires k env) w)) = currentStepIndex (sim w) + 1 \<and>
         sim (fire B (CompletionFires k env) (w\<lparr>sim := (sim w)\<lparr>edges := es'\<rparr>\<rparr>)) =
           (sim (fire B (CompletionFires k env) w))\<lparr>edges := es'\<rparr>"
proof -
  let ?c = "pending w ! k"
  have r: "result_output (simulateNodeExecution B env (Some node) (cl_data ?c)) =
           JObj [(''condition'', JBool (node_random env > 0.5)),
                 (''branch'', JStr (if node_random env > 0.5 then ''true'' else ''false''))]"
    by (rule condition_result [OF assms(3)])
  have s: "sim (fire B (CompletionFires k env) w) = completeStep B env ?c (sim w)"
    by (rule sim_completion_fires [OF assms(1)])
  have s': "sim (fire B (CompletionFires k env) (w\<lparr>sim := (sim w)\<lparr>edges := es'\<rparr>\<rparr>)) =
            completeStep B env ?c ((sim w)\<lparr>edges := es'\<rparr>)"
    using assms(1) by simp
  have o: "step_output (executionSteps (completeStep B env ?c (sim w)) ! nat (cl_index ?c)) =
           (if random_success env > 0.1
            then result_output (simulateNodeExecution B env (Some node) (cl_data ?c))
            else JUndefined)"
    unfolding sealed_step_at [OF assms(4,5)] using assms(2) by (simp add: sealStep_def Let_def)
  have i: "currentStepIndex (completeStep B env ?c (sim w)) = currentStepIndex (sim w) + 1"
    by (simp add: completeStep_eq)
  have e: "completeStep B env ?c ((sim w)\<lparr>edges := es'\<rparr>) =
           (completeStep B env ?c (sim w))\<lparr>edges := es'\<rparr>"
    by (simp add: completeStep_eq)
  show ?thesis unfolding s s' o i e r by simp
qed

theorem condition_branch_is_the_random_draw_witness:
  "pending (run_events sample_builtins [StartSimulation, TimerFires 0]
      (mountRuntime sample_builtins condition_nodes condition_edges True sample_data))
     = [\<lparr>cl_index = 0, cl_node = Some (hd condition_nodes), cl_data = sample_data\<rparr>] \<and>
   ntype (hd condition_nodes) = Some ''condition'' \<and>
   step_output (executionSteps (sim (fire sample_builtins (CompletionFires 0 env_high)
      (run_events sample_builtins [StartSimulation, TimerFires 0]
         (mountRuntime sample_builtins condition_nodes condition_edges True sample_data)))) ! 0)
     = JObj [(''condition'', JBool True), (''branch'', JStr ''true'')] \<and>
   currentStepIndex (sim (fire sample_builtins (CompletionFires 0 env_high)
      (run_events sample_builtins [StartSimulation, TimerFires 0]
         (mountRuntime sample_builtins condition_nodes condition_edges True sample_data)))) = 1"
proof -
  define w where "w = run_events sample_builtins [StartSimulation, TimerFires 0]
      (mountRuntime sample_builtins condition_nodes condition_edges True sample_data)"
  have p: "pending w
             = [\<lparr>cl_index = 0, cl_node = Some (hd condition_nodes), cl_data = sample_data\<rparr>]"
    unfolding w_def by (simp add: sim_unfold condition_nodes_def)
  have l: "length (executionSteps (sim w)) = 3" and i: "currentStepIndex (sim w) = 0"
    unfolding w_def by (simp_all add: sim_unfold condition_nodes_def)
  have h1: "0 < length (pending w)" using p by simp
  have h2: "cl_node (pending w ! 0) = Some (hd condition_nodes)" using p by simp
  have h3: "ntype (hd condition_nodes) = Some ''condition''" by (simp add: condition_nodes_def)
  have h4: "0 \<le> cl_index (pending w ! 0)" using p by simp
  have h5: "cl_index (pending w ! 0) < int (length (executionSteps (sim w)))" using p l by simp
  have r: "node_random env_high > 0.5" "random_success env_high > 0.1"
    by (simp_all add: env_high_def)
  have c: "nat (cl_index (pending w ! 0)) = 0" using p by simp
  from condition_branch_is_the_random_draw [OF h1 h2 h3 h4 h5, of sample_builtins env_high]
  have "step_output (executionSteps (sim (fire sample_builtins (CompletionFires 0 env_high) w)) ! 0)
          = JObj [(''condition'', JBool True), (''branch'', JStr ''true'')] \<and>
        currentStepIndex (sim (fire sample_builtins (CompletionFires 0 env_high) w)) = 1"
    unfolding c i using r by (simp del: fire.simps)
  with p h3 show ?thesis unfolding w_def by blast
qed

text \<open>
  The claim as stated fails: for one Condition node (\<open>amount > 200\<close>) and one set of
  variables (\<open>amount = 150\<close>) the simulator reports the branch \<open>true\<close> on one draw and
  \<open>false\<close> on another, so the branch is not a function of the variables and the config.
\<close>

theorem condition_branch_counterexample:
  "result_output (simulateNodeExecution sample_builtins env_high
      (Some (hd condition_nodes)) sample_data) =
     JObj [(''condition'', JBool True), (''branch'', JStr ''true'')] \<and>
   result_output (simulateNodeExecution sample_builtins env_low
      (Some (hd condition_nodes)) sample_data) =
     JObj [(''condition'', JBool False), (''branch'', JStr ''false'')] \<and>
   condition (the (ndata (hd condition_nodes))) =
     Some \<lparr>cond_field = ''amount'', cond_operator = ''greater_than'', cond_value = JNum 200\<rparr> \<and>
   amount sample_data = 150"
  by (simp add: simulateNodeExecution_def condition_nodes_def env_high_def env_low_def
        sample_data_def Let_def)

subsection \<open>C2: a failed step\<close>

text \<open>
  C2, as the code has it. When the completion of a step fires and seals the execution
  as failed (the success draw is at most 0.1), the step's status becomes failed,
  \<open>isPlaying\<close> is left as it was and the current step index advances by one: there is
  no run status and nothing stops. The auto-play timer is set again exactly when the
  simulator is playing and the new index is below the number of steps; and when the
  simulator is playing and the new index is that of a step, the timer, if it is the next
  to fire, marks that step running. The state may have any edges: those of the failed
  node are not consulted.
\<close>

theorem failed_step_does_not_stop_the_run:
  assumes "k < length (pending w)"
    and "0 \<le> cl_index (pending w ! k)"
    and "cl_index (pending w ! k) < int (length (executionSteps (sim w)))"
    and "random_success env \<le> 0.1"
  shows "status (executionSteps (sim (fire B (CompletionFires k env) w))
                   ! nat (cl_index (pending w ! k))) = Failed \<and>
         isPlaying (sim (fire B (CompletionFires k env) w)) = isPlaying (sim w) \<and>
         currentStepIndex (sim (fire B (CompletionFires k env) w)) = currentStepIndex (sim w) + 1 \<and>
         timer (fire B (CompletionFires k env) w) =
           (if isPlaying (sim w) \<and>
               currentStepIndex (sim w) + 1 < int (length (executionSteps (sim w)))
            then Some (sim (fire B (CompletionFires k env) w)) else None) \<and>
         (isPlaying (sim w) \<and> 0 \<le> currentStepIndex (sim w) + 1 \<and>
          currentStepIndex (sim w) + 1 < int (length (executionSteps (sim w))) \<longrightarrow>
            status (executionSteps
                      (sim (fire B (TimerFires now) (fire B (CompletionFires k env) w)))
                      ! nat (currentStepIndex (sim w) + 1)) = Running)"
proof -
  let ?c = "pending w ! k"
  let ?s' = "completeStep B env ?c (sim w)"
  let ?w' = "fire B (CompletionFires k env) w"
  have s: "sim ?w' = ?s'" by (rule sim_completion_fires [OF assms(1)])
  have t: "timer ?w' =
           (if isPlaying (sim w) \<and>
               currentStepIndex (sim w) + 1 < int (length (executionSteps (sim w)))
            then Some ?s' else None)"
    by (rule timer_completion_fires [OF assms(1)])
  have f: "status (executionSteps ?s' ! nat (cl_index ?c)) = Failed"
    unfolding sealed_step_at [OF assms(2,3)] using assms(4) by (simp add: sealStep_def Let_def)
  have p: "isPlaying ?s' = isPlaying (sim w)" by (simp add: completeStep_eq)
  have i: "currentStepIndex ?s' = currentStepIndex (sim w) + 1" by (simp add: completeStep_eq)
  have l: "length (executionSteps ?s') = length (executionSteps (sim w))"
    by (simp add: completeStep_eq)
  have n: "status (executionSteps (sim (fire B (TimerFires now) ?w'))
                     ! nat (currentStepIndex (sim w) + 1)) = Running"
    if a: "isPlaying (sim w)" and b: "0 \<le> currentStepIndex (sim w) + 1"
      and c: "currentStepIndex (sim w) + 1 < int (length (executionSteps (sim w)))"
  proof -
    have t': "timer ?w' = Some ?s'" using t a c by simp
    have x: "executeNextStep now ?s' ?s' =
               Inr (?s'\<lparr>executionSteps :=
                      map_index (\<lambda>step index. if int index = currentStepIndex ?s'
                                   then markRunning now step else step) (executionSteps ?s')\<rparr>,
                    Some (closure_of ?s'))"
      unfolding executeNextStep_cases using b c i l by simp
    have "sim (fire B (TimerFires now) ?w') =
            ?s'\<lparr>executionSteps :=
                  map_index (\<lambda>step index. if int index = currentStepIndex ?s'
                               then markRunning now step else step) (executionSteps ?s')\<rparr>"
      using t' s x by simp
    then show ?thesis using b c i l by (simp add: markRunning_def)
  qed
  show ?thesis unfolding s using t f p i n unfolding s by simp
qed

theorem failed_step_does_not_stop_the_run_witness:
  "pending (run_events sample_builtins [StartSimulation, TimerFires 0]
      (mountRuntime sample_builtins action_nodes action_edges True sample_data))
     = [\<lparr>cl_index = 0, cl_node = Some (hd action_nodes), cl_data = sample_data\<rparr>] \<and>
   random_success env_fail \<le> 0.1 \<and>
   status (executionSteps (sim (fire sample_builtins (CompletionFires 0 env_fail)
      (run_events sample_builtins [StartSimulation, TimerFires 0]
         (mountRuntime sample_builtins action_nodes action_edges True sample_data)))) ! 0)
     = Failed \<and>
   isPlaying (sim (fire sample_builtins (CompletionFires 0 env_fail)
      (run_events sample_builtins [StartSimulation, TimerFires 0]
         (mountRuntime sample_builtins action_nodes action_edges True sample_data)))) \<and>
   currentStepIndex (sim (fire sample_builtins (CompletionFires 0 env_fail)
      (run_events sample_builtins [StartSimulation, TimerFires 0]
         (mountRuntime sample_builtins action_nodes action_edges True sample_data)))) = 1 \<and>
   status (executionSteps (sim (fire sample_builtins (TimerFires 1000)
      (fire sample_builtins (CompletionFires 0 env_fail)
        (run_events sample_builtins [StartSimulation, TimerFires 0]
           (mountRuntime sample_builtins action_nodes action_edges True sample_data))))) ! 1)
     = Running"
proof -
  define w where "w = run_events sample_builtins [StartSimulation, TimerFires 0]
      (mountRuntime sample_builtins action_nodes action_edges True sample_data)"
  have p: "pending w
             = [\<lparr>cl_index = 0, cl_node = Some (hd action_nodes), cl_data = sample_data\<rparr>]"
    unfolding w_def by (simp add: sim_unfold action_nodes_def)
  have l: "length (executionSteps (sim w)) = 2" and i: "currentStepIndex (sim w) = 0"
    and pl: "isPlaying (sim w)"
    unfolding w_def by (simp_all add: sim_unfold action_nodes_def)
  have h1: "0 < length (pending w)" using p by simp
  have h2: "0 \<le> cl_index (pending w ! 0)" using p by simp
  have h3: "cl_index (pending w ! 0) < int (length (executionSteps (sim w)))" using p l by simp
  have h4: "random_success env_fail \<le> 0.1" by (simp add: env_fail_def)
  have c: "nat (cl_index (pending w ! 0)) = 0" using p by simp
  from failed_step_does_not_stop_the_run [OF h1 h2 h3 h4, of sample_builtins 1000]
  have "status (executionSteps (sim (fire sample_builtins (CompletionFires 0 env_fail) w)) ! 0)
          = Failed \<and>
        isPlaying (sim (fire sample_builtins (CompletionFires 0 env_fail) w)) \<and>
        currentStepIndex (sim (fire sample_builtins (CompletionFires 0 env_fail) w)) = 1 \<and>
        status (executionSteps (sim (fire sample_builtins (TimerFires 1000)
          (fire sample_builtins (CompletionFires 0 env_fail) w))) ! 1) = Running"
    unfolding c i l using pl by (simp del: fire.simps)
  with p h4 show ?thesis unfolding w_def by blast
qed

text \<open>
  The claim as stated fails: the Action node has no failure edge, its step is sealed as
  failed, and the End node after it is executed and completes; the simulator is still
  playing.
\<close>

theorem failed_step_counterexample:
  "map status (executionSteps (sim (run_events sample_builtins (uninterrupted [env_fail, env_ok])
      (mountRuntime sample_builtins action_nodes action_edges True sample_data))))
     = [Failed, Completed] \<and>
   map nodeId (executionSteps (sim (run_events sample_builtins (uninterrupted [env_fail, env_ok])
      (mountRuntime sample_builtins action_nodes action_edges True sample_data))))
     = [''action-1'', ''end-1''] \<and>
   isPlaying (sim (run_events sample_builtins (uninterrupted [env_fail, env_ok])
      (mountRuntime sample_builtins action_nodes action_edges True sample_data))) \<and>
   map sourceHandle (filter (\<lambda>e. source e = ''action-1'') action_edges) = [None]"
  by (simp add: sim_unfold action_nodes_def action_edges_def env_fail_def env_ok_def)

subsection \<open>C3: the two targets of a Condition node\<close>

text \<open>
  C3, as the code has it. No step is ever marked skipped: in every state that the
  component reaches from the mounted one, by any sequence of controller operations (the
  \<open>executeNextStep\<close> of any render, a completion with any closure) and by any sequence
  of events (buttons, speed, test data, the timer and the completions in any order), no
  step has the status skipped.
\<close>

theorem no_step_is_ever_skipped:
  "(\<forall>step \<in> set (executionSteps (apply_ops B ops (mount B ns es running data))).
      status step \<noteq> Skipped) \<and>
   (\<forall>step \<in> set (executionSteps (sim (run_events B evs (mountRuntime B ns es running data)))).
      status step \<noteq> Skipped)"
proof -
  have "never_skipped (sim (mountRuntime B ns es running data))"
    by (simp add: mountRuntime_def never_skipped_mount)
  then have "never_skipped (sim (run_events B evs (mountRuntime B ns es running data)))"
    by (rule never_skipped_run_events)
  moreover have "never_skipped (apply_ops B ops (mount B ns es running data))"
    by (rule never_skipped_apply_ops [OF never_skipped_mount])
  ultimately show ?thesis by (simp add: never_skipped_def list_all_iff)
qed

theorem no_step_is_ever_skipped_witness:
  "map status (executionSteps (apply_ops sample_builtins
      [Play,
       ExecuteNextStep 0
         (startSimulation (mount sample_builtins condition_nodes condition_edges True sample_data)),
       Completion env_high \<lparr>cl_index = 0, cl_node = Some (hd condition_nodes),
                             cl_data = sample_data\<rparr>]
      (mount sample_builtins condition_nodes condition_edges True sample_data)))
     = [Completed, Pending, Pending] \<and>
   list_all (\<lambda>step. status step \<noteq> Skipped)
     (executionSteps (apply_ops sample_builtins
      [Play,
       ExecuteNextStep 0
         (startSimulation (mount sample_builtins condition_nodes condition_edges True sample_data)),
       Completion env_high \<lparr>cl_index = 0, cl_node = Some (hd condition_nodes),
                             cl_data = sample_data\<rparr>]
      (mount sample_builtins condition_nodes condition_edges True sample_data))) \<and>
   map status (executionSteps (sim (run_events sample_builtins
      [StartSimulation, TimerFires 0, CompletionFires 0 env_high, TimerFires 1000]
      (mountRuntime sample_builtins condition_nodes condition_edges True sample_data))))
     = [Completed, Running, Pending] \<and>
   list_all (\<lambda>step. status step \<noteq> Skipped)
     (executionSteps (sim (run_events sample_builtins
      [StartSimulation, TimerFires 0, CompletionFires 0 env_high, TimerFires 1000]
      (mountRuntime sample_builtins condition_nodes condition_edges True sample_data))))"
proof -
  define ops where "ops =
      [Play,
       ExecuteNextStep 0
         (startSimulation (mount sample_builtins condition_nodes condition_edges True sample_data)),
       Completion env_high \<lparr>cl_index = 0, cl_node = Some (hd condition_nodes),
                             cl_data = sample_data\<rparr>]"
  define evs where "evs =
      [StartSimulation, TimerFires 0, CompletionFires 0 env_high, TimerFires 1000]"
  have a: "map status (executionSteps (apply_ops sample_builtins ops
             (mount sample_builtins condition_nodes condition_edges True sample_data)))
           = [Completed, Pending, Pending]"
    unfolding ops_def by (simp add: sim_unfold condition_nodes_def env_high_def)
  have b: "map status (executionSteps (sim (run_events sample_builtins evs
             (mountRuntime sample_builtins condition_nodes condition_edges True sample_data))))
           = [Completed, Running, Pending]"
    unfolding evs_def by (simp add: sim_unfold condition_nodes_def env_high_def)
  from no_step_is_ever_skipped
    [of sample_builtins ops condition_nodes condition_edges True sample_data evs]
  have "list_all (\<lambda>step. status step \<noteq> Skipped)
          (executionSteps (apply_ops sample_builtins ops
             (mount sample_builtins condition_nodes condition_edges True sample_data))) \<and>
        list_all (\<lambda>step. status step \<noteq> Skipped)
          (executionSteps (sim (run_events sample_builtins evs
             (mountRuntime sample_builtins condition_nodes condition_edges True sample_data))))"
    by (simp add: list_all_iff)
  with a b show ?thesis unfolding ops_def evs_def by blast
qed

text \<open>
  The claim as stated fails: the Condition reports the branch \<open>true\<close>, and the target of
  its \<open>false\<close> edge is executed and completed, not skipped, as is the target of its
  \<open>true\<close> edge.
\<close>

theorem condition_targets_counterexample:
  "map status (executionSteps (sim (run_events sample_builtins
      (uninterrupted [env_high, env_ok, env_ok])
      (mountRuntime sample_builtins condition_nodes condition_edges True sample_data))))
     = [Completed, Completed, Completed] \<and>
   map nodeId (executionSteps (sim (run_events sample_builtins
      (uninterrupted [env_high, env_ok, env_ok])
      (mountRuntime sample_builtins condition_nodes condition_edges True sample_data))))
     = [''condition-1'', ''notification-1'', ''end-1''] \<and>
   step_output (hd (executionSteps (sim (run_events sample_builtins
      (uninterrupted [env_high, env_ok, env_ok])
      (mountRuntime sample_builtins condition_nodes condition_edges True sample_data)))))
     = JObj [(''condition'', JBool True), (''branch'', JStr ''true'')] \<and>
   map (\<lambda>e. (source e, sourceHandle e, target e)) condition_edges
     = [(''condition-1'', Some ''true'', ''notification-1''),
        (''condition-1'', Some ''false'', ''end-1'')]"
  by (simp add: sim_unfold condition_nodes_def condition_edges_def env_high_def env_ok_def)

subsection \<open>C4: the two targets of a Payment node\<close>

text \<open>
  C4, as the code has it. Auto-play that nothing interrupts (Play on the mounted
  component, then each firing of the timer followed by the completion it scheduled, at
  least as many times as there are nodes, and no other event) executes one step per
  node, in the order of the nodes array: at the end the index is the number of nodes,
  nothing is scheduled, step \<open>j\<close> carries the id of node \<open>j\<close> and is sealed, completed
  or failed, and its record is that of one execution with the first node of the array
  that has the id of node \<open>j\<close>, which is node \<open>j\<close> itself when the ids are distinct.
  The edges are not read, so the targets of a Payment node's \<open>success\<close> and
  \<open>failure\<close> edges, being nodes of the array, are both executed.
\<close>

theorem uninterrupted_run_executes_every_node:
  assumes "length ns \<le> length envs"
  shows "currentStepIndex
           (sim (run_events B (uninterrupted envs) (mountRuntime B ns es running data)))
           = int (length ns) \<and>
         pending (run_events B (uninterrupted envs) (mountRuntime B ns es running data)) = [] \<and>
         executionSteps
           (sim (run_events B (uninterrupted envs) (mountRuntime B ns es running data)))
           = map (\<lambda>j. executedRecord B ns data (envs ! j) j) [0..<length ns] \<and>
         (\<forall>j < length ns.
            nodeId (executionSteps
              (sim (run_events B (uninterrupted envs) (mountRuntime B ns es running data))) ! j)
              = nid (ns ! j) \<and>
            sealed (executionSteps
              (sim (run_events B (uninterrupted envs) (mountRuntime B ns es running data))) ! j)) \<and>
         (distinct (map nid ns) \<longrightarrow>
            executionSteps
              (sim (run_events B (uninterrupted envs) (mountRuntime B ns es running data)))
              = map (\<lambda>j. sealStep B (envs ! j)
                           \<lparr>cl_index = int j, cl_node = Some (ns ! j), cl_data = data\<rparr>
                           (markRunning (now_start (envs ! j)) (initSteps B ns ! j)))
                  [0..<length ns])"
proof -
  let ?W = "run_events B (uninterrupted envs) (mountRuntime B ns es running data)"
  note u = uninterrupted_mount [OF assms, of B es running data]
  have a: "currentStepIndex (sim ?W) = int (length ns)" and b: "pending ?W = []"
    and c: "executionSteps (sim ?W) = map (\<lambda>j. executedRecord B ns data (envs ! j) j) [0..<length ns]"
    using u by simp_all
  have d: "\<forall>j < length ns. nodeId (executionSteps (sim ?W) ! j) = nid (ns ! j) \<and>
             sealed (executionSteps (sim ?W) ! j)"
    unfolding c by (simp add: executedRecord_def nth_initSteps_nodeId)
  have e: "executionSteps (sim ?W)
             = map (\<lambda>j. sealStep B (envs ! j)
                          \<lparr>cl_index = int j, cl_node = Some (ns ! j), cl_data = data\<rparr>
                          (markRunning (now_start (envs ! j)) (initSteps B ns ! j)))
                 [0..<length ns]"
    if "distinct (map nid ns)"
    unfolding c by (simp add: executedRecord_def find_distinct [OF that])
  from a b c d e show ?thesis by blast
qed

theorem uninterrupted_run_executes_every_node_witness:
  "length payment_nodes \<le> length [env_ok, env_ok, env_ok] \<and>
   distinct (map nid payment_nodes) \<and>
   currentStepIndex (sim (run_events sample_builtins (uninterrupted [env_ok, env_ok, env_ok])
     (mountRuntime sample_builtins payment_nodes payment_edges True sample_data))) = 3 \<and>
   nodeId (executionSteps (sim (run_events sample_builtins (uninterrupted [env_ok, env_ok, env_ok])
     (mountRuntime sample_builtins payment_nodes payment_edges True sample_data))) ! 1)
     = ''notification-1'' \<and>
   sealed (executionSteps (sim (run_events sample_builtins (uninterrupted [env_ok, env_ok, env_ok])
     (mountRuntime sample_builtins payment_nodes payment_edges True sample_data))) ! 1) \<and>
   nodeId (executionSteps (sim (run_events sample_builtins (uninterrupted [env_ok, env_ok, env_ok])
     (mountRuntime sample_builtins payment_nodes payment_edges True sample_data))) ! 2)
     = ''end-1'' \<and>
   sealed (executionSteps (sim (run_events sample_builtins (uninterrupted [env_ok, env_ok, env_ok])
     (mountRuntime sample_builtins payment_nodes payment_edges True sample_data))) ! 2) \<and>
   executionSteps (sim (run_events sample_builtins (uninterrupted [env_ok, env_ok, env_ok])
     (mountRuntime sample_builtins payment_nodes payment_edges True sample_data))) ! 2
     = sealStep sample_builtins env_ok
         \<lparr>cl_index = 2, cl_node = Some (payment_nodes ! 2), cl_data = sample_data\<rparr>
         (markRunning 0 (initSteps sample_builtins payment_nodes ! 2))"
proof -
  define W where "W = sim (run_events sample_builtins (uninterrupted [env_ok, env_ok, env_ok])
     (mountRuntime sample_builtins payment_nodes payment_edges True sample_data))"
  have n: "length payment_nodes = 3" by (simp add: payment_nodes_def)
  have h: "length payment_nodes \<le> length [env_ok, env_ok, env_ok]" using n by simp
  have d: "distinct (map nid payment_nodes)" by (simp add: payment_nodes_def)
  have n1: "nid (payment_nodes ! 1) = ''notification-1''" by (simp add: payment_nodes_def)
  have n2: "nid (payment_nodes ! 2) = ''end-1''" by (simp add: payment_nodes_def)
  have t: "now_start env_ok = 0" by (simp add: env_ok_def)
  note f = uninterrupted_run_executes_every_node
    [OF h, of sample_builtins payment_edges True sample_data, folded W_def]
  from f have "currentStepIndex W = int (length payment_nodes)" by blast
  then have a: "currentStepIndex W = 3" using n by simp
  from f have b: "\<forall>j < length payment_nodes.
                    nodeId (executionSteps W ! j) = nid (payment_nodes ! j) \<and>
                    sealed (executionSteps W ! j)"
    by blast
  from f d have "executionSteps W
             = map (\<lambda>j. sealStep sample_builtins ([env_ok, env_ok, env_ok] ! j)
                          \<lparr>cl_index = int j, cl_node = Some (payment_nodes ! j),
                             cl_data = sample_data\<rparr>
                          (markRunning (now_start ([env_ok, env_ok, env_ok] ! j))
                             (initSteps sample_builtins payment_nodes ! j)))
                 [0..<length payment_nodes]"
    by blast
  then have c: "executionSteps W ! 2
     = sealStep sample_builtins env_ok
         \<lparr>cl_index = 2, cl_node = Some (payment_nodes ! 2), cl_data = sample_data\<rparr>
         (markRunning 0 (initSteps sample_builtins payment_nodes ! 2))"
    using n t by (simp add: numeral_2_eq_2)
  have "(1::nat) < length payment_nodes" and "(2::nat) < length payment_nodes"
    using n by simp_all
  with b have "nodeId (executionSteps W ! 1) = nid (payment_nodes ! 1)"
    and b2: "sealed (executionSteps W ! 1)"
    and "nodeId (executionSteps W ! 2) = nid (payment_nodes ! 2)"
    and b4: "sealed (executionSteps W ! 2)"
    by blast+
  then have b1: "nodeId (executionSteps W ! 1) = ''notification-1''"
    and b3: "nodeId (executionSteps W ! 2) = ''end-1''"
    using n1 n2 by simp_all
  from h d a b1 b2 b3 b4 c show ?thesis unfolding W_def by blast
qed

text \<open>
  The claim as stated fails: in one run the target of the Payment's \<open>success\<close> edge and
  the target of its \<open>failure\<close> edge are both executed.
\<close>

theorem payment_targets_counterexample:
  "map status (executionSteps (sim (run_events sample_builtins
      (uninterrupted [env_ok, env_ok, env_ok])
      (mountRuntime sample_builtins payment_nodes payment_edges True sample_data))))
     = [Completed, Completed, Completed] \<and>
   map nodeId (executionSteps (sim (run_events sample_builtins
      (uninterrupted [env_ok, env_ok, env_ok])
      (mountRuntime sample_builtins payment_nodes payment_edges True sample_data))))
     = [''payment-1'', ''notification-1'', ''end-1''] \<and>
   map (\<lambda>e. (source e, sourceHandle e, target e)) payment_edges
     = [(''payment-1'', Some ''success'', ''notification-1''),
        (''payment-1'', Some ''failure'', ''end-1'')]"
  by (simp add: sim_unfold payment_nodes_def payment_edges_def env_ok_def)

text \<open>
  When auto-play is interrupted, which steps are executed depends on the order of the
  events. The timer is set again when the playback speed changes: a speed button
  pressed while a step is running calls \<open>executeNextStep\<close> a second time for the same
  index; the two completions then advance the index by two, and the node after it is
  never executed.
\<close>

lemma second_executeNextStep_for_a_running_step_skips_a_node:
  "map status (executionSteps (sim (run_events sample_builtins
      [StartSimulation, TimerFires 0, SetPlaybackSpeed 2, TimerFires 0,
       CompletionFires 0 env_ok, CompletionFires 0 env_ok]
      (mountRuntime sample_builtins action_nodes action_edges True sample_data))))
     = [Completed, Pending] \<and>
   currentStepIndex (sim (run_events sample_builtins
      [StartSimulation, TimerFires 0, SetPlaybackSpeed 2, TimerFires 0,
       CompletionFires 0 env_ok, CompletionFires 0 env_ok]
      (mountRuntime sample_builtins action_nodes action_edges True sample_data))) = 2 \<and>
   timer (run_events sample_builtins
      [StartSimulation, TimerFires 0, SetPlaybackSpeed 2, TimerFires 0,
       CompletionFires 0 env_ok, CompletionFires 0 env_ok]
      (mountRuntime sample_builtins action_nodes action_edges True sample_data)) = None \<and>
   pending (run_events sample_builtins
      [StartSimulation, TimerFires 0, SetPlaybackSpeed 2, TimerFires 0,
       CompletionFires 0 env_ok, CompletionFires 0 env_ok]
      (mountRuntime sample_builtins action_nodes action_edges True sample_data)) = []"
  by (simp add: sim_unfold action_nodes_def env_ok_def)

subsection \<open>C6: replay after reset\<close>

text \<open>
  C6, as the code has it. The simulator has no seed: the records of a run are a
  function of the values it reads from \<open>Math.random()\<close> and from the clock. For every
  flow graph and every sequence of events from the mounted component after which no
  completion is still scheduled and the test data and the playback speed are the initial
  ones: Stop, then the same events again, each completion reading the same draws, at any
  clock readings, gives the same steps in the same order, each with the same id, node,
  status, duration, input, error and logs, and with the same output up to the time stamp
  in the output of a start or end node.
\<close>

theorem replay_after_reset_agrees_up_to_clock:
  assumes "list_all2 same_event evs evs'"
    and "pending (run_events B evs (mountRuntime B ns es running data)) = []"
    and "simulationData (sim (run_events B evs (mountRuntime B ns es running data))) = data"
    and "playbackSpeed (run_events B evs (mountRuntime B ns es running data)) = 1"
  shows "map clock_free
           (executionSteps (sim (run_events B evs'
              (fire B StopSimulation (run_events B evs (mountRuntime B ns es running data)))))) =
         map clock_free
           (executionSteps (sim (run_events B evs (mountRuntime B ns es running data))))"
proof -
  have "alike_runtime (run_events B evs (mountRuntime B ns es running data))
          (run_events B evs'
             (fire B StopSimulation (run_events B evs (mountRuntime B ns es running data))))"
    by (rule run_events_alike [OF assms(1) stop_restores_mount [OF assms(2,3,4)]])
  then show ?thesis by (simp add: alike_runtime_def alike_def)
qed

theorem replay_after_reset_agrees_up_to_clock_witness:
  "list_all2 same_event (uninterrupted [env_ok]) (uninterrupted [env_later]) \<and>
   pending (run_events sample_builtins (uninterrupted [env_ok])
      (mountRuntime sample_builtins initialNodes [] True sample_data)) = [] \<and>
   simulationData (sim (run_events sample_builtins (uninterrupted [env_ok])
      (mountRuntime sample_builtins initialNodes [] True sample_data))) = sample_data \<and>
   playbackSpeed (run_events sample_builtins (uninterrupted [env_ok])
      (mountRuntime sample_builtins initialNodes [] True sample_data)) = 1 \<and>
   map clock_free
     (executionSteps (sim (run_events sample_builtins (uninterrupted [env_later])
        (fire sample_builtins StopSimulation
           (run_events sample_builtins (uninterrupted [env_ok])
              (mountRuntime sample_builtins initialNodes [] True sample_data)))))) =
   map clock_free
     (executionSteps (sim (run_events sample_builtins (uninterrupted [env_ok])
        (mountRuntime sample_builtins initialNodes [] True sample_data)))) \<and>
   map status
     (executionSteps (sim (run_events sample_builtins (uninterrupted [env_ok])
        (mountRuntime sample_builtins initialNodes [] True sample_data)))) = [Completed]"
proof -
  define w where "w = run_events sample_builtins (uninterrupted [env_ok])
      (mountRuntime sample_builtins initialNodes [] True sample_data)"
  have h1: "list_all2 same_event (uninterrupted [env_ok]) (uninterrupted [env_later])"
    by (simp add: uninterrupted_def stepEvents_def same_draws_def env_ok_def env_later_def)
  have h2: "pending w = []" and h3: "simulationData (sim w) = sample_data"
    and h4: "playbackSpeed w = 1"
    and s: "map status (executionSteps (sim w)) = [Completed]"
    unfolding w_def by (simp_all add: sim_unfold initialNodes_def env_ok_def)
  from replay_after_reset_agrees_up_to_clock [OF h1 h2 [unfolded w_def] h3 [unfolded w_def] h4 [unfolded w_def]]
  have "map clock_free
          (executionSteps (sim (run_events sample_builtins (uninterrupted [env_later])
             (fire sample_builtins StopSimulation w)))) =
        map clock_free (executionSteps (sim w))"
    unfolding w_def .
  with h1 h2 h3 h4 s show ?thesis unfolding w_def by blast
qed

text \<open>
  The claim as stated fails: the flow is the editor's initial graph (one start node),
  the replay reads the draws of the first run, and the output of its start step differs
  from the first run's, because it holds the time at which the step ran.
\<close>

theorem replay_output_counterexample:
  "list_all2 same_event (uninterrupted [env_ok]) (uninterrupted [env_later]) \<and>
   map step_output
     (executionSteps (sim (run_events sample_builtins (uninterrupted [env_ok])
        (mountRuntime sample_builtins initialNodes [] True sample_data)))) =
     [JObj [(''flowId'', JStr ''flow-123''),
            (''startTime'', JStr ''1970-01-01T00:00:00.000Z'')]] \<and>
   map step_output
     (executionSteps (sim (run_events sample_builtins (uninterrupted [env_later])
        (fire sample_builtins StopSimulation
           (run_events sample_builtins (uninterrupted [env_ok])
              (mountRuntime sample_builtins initialNodes [] True sample_data)))))) =
     [JObj [(''flowId'', JStr ''flow-123''),
            (''startTime'', JStr ''1970-01-01T00:00:01.000Z'')]]"
  by (simp add: sim_unfold initialNodes_def same_draws_def env_ok_def env_later_def)

subsection \<open>C7: the controller and the flow\<close>

text \<open>
  C7. For every flow graph and every sequence of controller operations (play, pause, a
  call of \<open>executeNextStep\<close>, a completion callback, stop, \<open>jumpToStep\<close>), the nodes
  and the edges of the flow are what they were: the controller reads the graph and never
  changes it.
\<close>

theorem controller_never_mutates_flow:
  "nodes (apply_ops B ops s) = nodes s \<and> edges (apply_ops B ops s) = edges s"
  by (induction ops arbitrary: s) (simp_all add: apply_op_frame del: apply_op.simps)

theorem controller_never_mutates_flow_witness:
  "nodes (apply_ops sample_builtins
      [Play,
       ExecuteNextStep 0
         (startSimulation (mount sample_builtins action_nodes action_edges True sample_data)),
       Completion env_ok \<lparr>cl_index = 0, cl_node = Some (hd action_nodes),
                           cl_data = sample_data\<rparr>,
       JumpToStep 5, Pause, Stop]
      (mount sample_builtins action_nodes action_edges True sample_data)) = action_nodes \<and>
   edges (apply_ops sample_builtins
      [Play,
       ExecuteNextStep 0
         (startSimulation (mount sample_builtins action_nodes action_edges True sample_data)),
       Completion env_ok \<lparr>cl_index = 0, cl_node = Some (hd action_nodes),
                           cl_data = sample_data\<rparr>,
       JumpToStep 5, Pause, Stop]
      (mount sample_builtins action_nodes action_edges True sample_data)) = action_edges"
  using controller_never_mutates_flow
    [of sample_builtins
        "[Play,
          ExecuteNextStep 0
            (startSimulation (mount sample_builtins action_nodes action_edges True sample_data)),
          Completion env_ok \<lparr>cl_index = 0, cl_node = Some (hd action_nodes),
                              cl_data = sample_data\<rparr>,
          JumpToStep 5, Pause, Stop]"
        "mount sample_builtins action_nodes action_edges True sample_data"]
  by (simp add: mount_def del: apply_ops.simps)

subsection \<open>C8: stop\<close>

text \<open>
  C8. After \<open>stopSimulation\<close>, however far the simulation had progressed, the current
  step index is 0, no step is lost, and every step's record has status pending, no start
  time, end time, duration, output or error, and empty logs.
\<close>

theorem stopSimulation_resets_every_step:
  "currentStepIndex (stopSimulation s) = 0 \<and>
   length (executionSteps (stopSimulation s)) = length (executionSteps s) \<and>
   (\<forall>step \<in> set (executionSteps (stopSimulation s)).
      status step = Pending \<and> startTime step = None \<and> endTime step = None \<and>
      duration step = None \<and> step_output step = JUndefined \<and> step_error step = None \<and>
      logs step = [])"
  by (auto simp: stopSimulation_def resetStep_def)

theorem stopSimulation_resets_every_step_witness:
  "map status (executionSteps (sim (run_events sample_builtins (uninterrupted [env_ok])
      (mountRuntime sample_builtins action_nodes action_edges True sample_data))))
     = [Completed, Pending] \<and>
   currentStepIndex (sim (run_events sample_builtins (uninterrupted [env_ok])
      (mountRuntime sample_builtins action_nodes action_edges True sample_data))) = 1 \<and>
   currentStepIndex (stopSimulation (sim (run_events sample_builtins (uninterrupted [env_ok])
      (mountRuntime sample_builtins action_nodes action_edges True sample_data)))) = 0 \<and>
   length (executionSteps (stopSimulation (sim (run_events sample_builtins
      (uninterrupted [env_ok])
      (mountRuntime sample_builtins action_nodes action_edges True sample_data))))) = 2 \<and>
   list_all (\<lambda>step. status step = Pending \<and> startTime step = None \<and> endTime step = None \<and>
      duration step = None \<and> step_output step = JUndefined \<and> step_error step = None \<and>
      logs step = [])
     (executionSteps (stopSimulation (sim (run_events sample_builtins (uninterrupted [env_ok])
        (mountRuntime sample_builtins action_nodes action_edges True sample_data)))))"
proof -
  define s where "s = sim (run_events sample_builtins (uninterrupted [env_ok])
              (mountRuntime sample_builtins action_nodes action_edges True sample_data))"
  have a: "map status (executionSteps s) = [Completed, Pending]"
    unfolding s_def by (simp add: sim_unfold action_nodes_def env_ok_def)
  have b: "currentStepIndex s = 1"
    unfolding s_def by (simp add: sim_unfold action_nodes_def env_ok_def)
  have "length (map status (executionSteps s)) = 2" unfolding a by simp
  then have c: "length (executionSteps s) = 2" by simp
  have "currentStepIndex (stopSimulation s) = 0 \<and>
        length (executionSteps (stopSimulation s)) = 2 \<and>
        list_all (\<lambda>step. status step = Pending \<and> startTime step = None \<and> endTime step = None \<and>
          duration step = None \<and> step_output step = JUndefined \<and> step_error step = None \<and>
          logs step = [])
         (executionSteps (stopSimulation s))"
    using stopSimulation_resets_every_step [of s] c
    by (simp add: list_all_iff)
  with a b show ?thesis unfolding s_def by blast
qed

text \<open>
  \<open>stopSimulation\<close> does not cancel a completion that \<open>executeNextStep\<close> has scheduled:
  when Stop is pressed while a step is running, its completion fires after the reset,
  seals the step and advances the index.
\<close>

lemma completion_scheduled_before_stop_fires_after_it:
  "pending (run_events sample_builtins [StartSimulation, TimerFires 0, StopSimulation]
      (mountRuntime sample_builtins action_nodes action_edges True sample_data))
     = [\<lparr>cl_index = 0, cl_node = Some (hd action_nodes), cl_data = sample_data\<rparr>] \<and>
   map status (executionSteps (sim (run_events sample_builtins
      [StartSimulation, TimerFires 0, StopSimulation]
      (mountRuntime sample_builtins action_nodes action_edges True sample_data))))
     = [Pending, Pending] \<and>
   map status (executionSteps (sim (run_events sample_builtins
      [StartSimulation, TimerFires 0, StopSimulation, CompletionFires 0 env_ok]
      (mountRuntime sample_builtins action_nodes action_edges True sample_data))))
     = [Completed, Pending] \<and>
   currentStepIndex (sim (run_events sample_builtins
      [StartSimulation, TimerFires 0, StopSimulation, CompletionFires 0 env_ok]
      (mountRuntime sample_builtins action_nodes action_edges True sample_data))) = 1"
  by (simp add: sim_unfold action_nodes_def env_ok_def)

section \<open>Claims about the editor\<close>

subsection \<open>C5: publishing\<close>

text \<open>
  C5, as the code has it. \<open>handlePublish\<close> validates nothing: for every editor state it
  sets the flow's status to active and hands \<open>onPublish\<close> the current graph with status
  active, whatever the nodes and edges are.
\<close>

theorem handlePublish_activates_without_validation:
  "fp_status (flowProperties (snd (handlePublish B t_id t_created t_updated s))) = Active \<and>
   fd_status (fst (handlePublish B t_id t_created t_updated s)) = Active \<and>
   nodes (fst (handlePublish B t_id t_created t_updated s)) = nodes s \<and>
   edges (fst (handlePublish B t_id t_created t_updated s)) = edges s"
  by (simp add: handlePublish_def Let_def)

theorem handlePublish_activates_without_validation_witness:
  "fp_status (flowProperties (initEditor (Some sample_flow))) = Draft \<and>
   fp_status (flowProperties
     (snd (handlePublish sample_builtins 0 0 0 (initEditor (Some sample_flow))))) = Active \<and>
   fd_status (fst (handlePublish sample_builtins 0 0 0 (initEditor (Some sample_flow))))
     = Active"
  using handlePublish_activates_without_validation
    [of sample_builtins 0 0 0 "initEditor (Some sample_flow)"]
  by (simp add: initEditor_def sample_flow_def Let_def)

text \<open>
  The claim as stated fails: the editor's initial graph has a Start node and no End
  node, its flow is a draft, and publishing makes it active.
\<close>

theorem publish_without_end_node_counterexample:
  "\<not> spec_structurally_valid (nodes (initEditor None)) \<and>
   fp_status (flowProperties (initEditor None)) = Draft \<and>
   fp_status (flowProperties (snd (handlePublish sample_builtins 0 0 0 (initEditor None))))
     = Active \<and>
   fd_status (fst (handlePublish sample_builtins 0 0 0 (initEditor None))) = Active \<and>
   nodes (fst (handlePublish sample_builtins 0 0 0 (initEditor None))) = initialNodes"
  by (simp add: handlePublish_def initEditor_def initialNodes_def spec_structurally_valid_def
        Let_def)

subsection \<open>C9: deleting a node\<close>

text \<open>
  C9. After \<open>deleteNode nodeId\<close>, on any editor state, no remaining edge has the deleted
  node as its source or as its target; and if every edge endpoint was the id of a node
  of the graph before, it is so after.
\<close>

theorem deleteNode_leaves_no_dangling_edge:
  "(\<forall>e \<in> set (edges (deleteNode k s)). source e \<noteq> k \<and> target e \<noteq> k) \<and>
   (endpoints_exist (nodes s) (edges s) \<longrightarrow>
      endpoints_exist (nodes (deleteNode k s)) (edges (deleteNode k s)))"
  by (auto simp: deleteNode_def saveToHistory_def Let_def endpoints_exist_def list_all_iff)

theorem deleteNode_leaves_no_dangling_edge_witness:
  "endpoints_exist (nodes (initEditor (Some sample_flow))) (edges (initEditor (Some sample_flow))) \<and>
   edges (initEditor (Some sample_flow)) = action_edges \<and>
   edges (deleteNode ''end-1'' (initEditor (Some sample_flow))) = [] \<and>
   map nid (nodes (deleteNode ''end-1'' (initEditor (Some sample_flow)))) = [''action-1''] \<and>
   endpoints_exist (nodes (deleteNode ''end-1'' (initEditor (Some sample_flow))))
     (edges (deleteNode ''end-1'' (initEditor (Some sample_flow))))"
proof -
  let ?s = "initEditor (Some sample_flow)"
  have a: "endpoints_exist (nodes ?s) (edges ?s)"
    by (simp add: initEditor_def sample_flow_def action_nodes_def action_edges_def
          endpoints_exist_def Let_def)
  have b: "edges ?s = action_edges"
    by (simp add: initEditor_def sample_flow_def Let_def)
  have c: "edges (deleteNode ''end-1'' ?s) = []"
    by (simp add: deleteNode_def saveToHistory_def initEditor_def sample_flow_def
          action_edges_def Let_def)
  have d: "map nid (nodes (deleteNode ''end-1'' ?s)) = [''action-1'']"
    by (simp add: deleteNode_def saveToHistory_def initEditor_def sample_flow_def
          action_nodes_def Let_def)
  show ?thesis
    using deleteNode_leaves_no_dangling_edge [of "''end-1''" ?s] a b c d by simp
qed

subsection \<open>C10: undo and redo\<close>

text \<open>
  What \<open>undo\<close> and \<open>redo\<close> do with the history list: at an index \<open>i > 0\<close> within the
  list, \<open>undo\<close> makes the snapshot at \<open>i - 1\<close> the editor graph, and \<open>redo\<close> after it
  makes the snapshot at \<open>i\<close> the editor graph, with the index back at \<open>i\<close>.
\<close>

lemma undo_then_redo_follow_the_snapshots:
  assumes "0 < historyIndex s" and "historyIndex s < length (history s)"
  shows "\<exists>s'. undo s = Inr s' \<and>
           nodes s' = nodes (history s ! (historyIndex s - 1)) \<and>
           edges s' = edges (history s ! (historyIndex s - 1)) \<and>
           historyIndex s' = historyIndex s - 1 \<and>
           nodes (redo s') = nodes (history s ! historyIndex s) \<and>
           edges (redo s') = edges (history s ! historyIndex s) \<and>
           historyIndex (redo s') = historyIndex s"
  using assms by (auto simp: undo_def redo_def Let_def)

text \<open>
  C10 on the code. The snapshot at the current index is not the editor graph: the
  \<open>saveToHistory\<close> that an edit calls records the graph of the render it was created in,
  which is the graph before the edit. Adding an Action node to the initial graph gives
  the graph \<open>start-1, action-0\<close> at history index 1; \<open>undo\<close> gives \<open>start-1\<close>; and
  \<open>redo\<close> gives \<open>start-1\<close> again, at index 1: the added node is not restored.
\<close>

theorem undo_redo_loses_added_node:
  "map nid (nodes (addNode sample_builtins 0 0 0 ''action'' None (initEditor None)))
      = [''start-1'', ''action-0''] \<and>
   historyIndex (addNode sample_builtins 0 0 0 ''action'' None (initEditor None)) = 1 \<and>
   (case undo (addNode sample_builtins 0 0 0 ''action'' None (initEditor None)) of
      Inl e \<Rightarrow> False
    | Inr s' \<Rightarrow> map nid (nodes s') = [''start-1''] \<and>
               map nid (nodes (redo s')) = [''start-1''] \<and>
               historyIndex (redo s') = 1)"
  by (simp add: addNode_def saveToHistory_def undo_def redo_def initEditor_def initialNodes_def
        sample_builtins_def Let_def)


end
